theory Spec2Isabelle
  imports Complex_Main
begin

section \<open>Numbers and vectors\<close>

text \<open>
  The notebook computes with numpy arrays of Python floats. Floats are idealised as
  \<^typ>\<open>real\<close>: rounding, overflow and NaN are outside the model. A numpy vector is a
  \<^typ>\<open>real list\<close>; the callables \<open>f\<close>, \<open>g\<close>, \<open>df\<close>, \<open>r\<close>, \<open>J\<close> are total
  functions that return the same value whenever they are called on the same point. The
  operands of \<open>+\<close> and \<open>dot\<close> are taken to have equal length, as numpy demands. The
  iteration caps \<open>m\<close> (\<open>lsi\<close>) and \<open>N\<close> are counts, and so are the counters \<open>i\<close> and
  \<open>k\<close>, which start at 0 and are only ever incremented: all four are natural numbers.
\<close>

type_synonym vec = "real list"

type_synonym mat = "real list list"

text \<open>\<^verbatim>\<open>u.dot( v )\<close>\<close>

definition dot :: "vec \<Rightarrow> vec \<Rightarrow> real" where
  "dot u v = sum_list (map2 (*) u v)"

text \<open>\<^verbatim>\<open>c * v\<close> for a scalar \<open>c\<close>, \<^verbatim>\<open>u + v\<close> and \<^verbatim>\<open>-v\<close>\<close>

definition smul :: "real \<Rightarrow> vec \<Rightarrow> vec" where
  "smul c v = map ((*) c) v"

definition vadd :: "vec \<Rightarrow> vec \<Rightarrow> vec" where
  "vadd u v = map2 (+) u v"

definition vneg :: "vec \<Rightarrow> vec" where
  "vneg v = map uminus v"

text \<open>\<^verbatim>\<open>la.norm( v )\<close>: the Euclidean norm of a vector\<close>

definition la_norm :: "vec \<Rightarrow> real" where
  "la_norm v = sqrt (dot v v)"

text \<open>
  \<open>alpha_max\<close> starts as \<^verbatim>\<open>np.inf\<close> and is later overwritten with a step length:
  a real number or plus infinity.
\<close>

datatype xreal = Fin real | PInf

text \<open>\<^verbatim>\<open>alpha_max >= np.inf\<close>\<close>

fun ge_inf :: "xreal \<Rightarrow> bool" where
  "ge_inf PInf = True"
| "ge_inf (Fin b) = False"

text \<open>\<open>a \<le> b\<close> for a real \<open>a\<close> and an extended \<open>b\<close>, and for two extended numbers\<close>

fun le_x :: "real \<Rightarrow> xreal \<Rightarrow> bool" where
  "le_x a PInf = True"
| "le_x a (Fin b) = (a \<le> b)"

fun x_le :: "xreal \<Rightarrow> xreal \<Rightarrow> bool" where
  "x_le b PInf = True"
| "x_le PInf (Fin c) = False"
| "x_le (Fin b) (Fin c) = (b \<le> c)"

section \<open>Line search with Wolfe conditions\<close>

text \<open>
  The variables of \<^verbatim>\<open>line_search_wolfe\<close> that the loop reads or writes. \<open>gz\<close> is
  used only to compute \<open>hz\<close> and is not kept.
\<close>

record ls_state =
  ls_alpha_min :: real
  ls_alpha :: real
  ls_alpha_max :: xreal
  ls_z :: vec
  ls_fz :: real
  ls_hz :: real
  ls_i :: nat

text \<open>The state when the loop is first reached (source lines 51 to 66, less \<open>W1\<close>, \<open>W2\<close>).\<close>

definition ls_init :: "vec \<Rightarrow> real \<Rightarrow> vec \<Rightarrow> (vec \<Rightarrow> real) \<Rightarrow> (vec \<Rightarrow> vec) \<Rightarrow> ls_state" where
  "ls_init x a p f g =
     (let z = vadd x (smul a p)
      in \<lparr>ls_alpha_min = 0, ls_alpha = a, ls_alpha_max = PInf,
          ls_z = z, ls_fz = f z, ls_hz = dot (g z) p, ls_i = 0\<rparr>)"

text \<open>\<^verbatim>\<open>W1 = fx + alpha * c1 * hx\<close> and \<^verbatim>\<open>W2 = c2 * hx\<close>, assigned once, before the
  loop, when \<open>alpha\<close> is still the argument \<open>a\<close>.\<close>

definition ls_W1 :: "vec \<Rightarrow> real \<Rightarrow> vec \<Rightarrow> (vec \<Rightarrow> real) \<Rightarrow> (vec \<Rightarrow> vec) \<Rightarrow> real \<Rightarrow> real" where
  "ls_W1 x a p f g c1 = f x + a * c1 * dot (g x) p"

definition ls_W2 :: "vec \<Rightarrow> vec \<Rightarrow> (vec \<Rightarrow> vec) \<Rightarrow> real \<Rightarrow> real" where
  "ls_W2 x p g c2 = c2 * dot (g x) p"

text \<open>The loop guard \<^verbatim>\<open>( fz >= W1 or hz <= W2 ) and i < m\<close>.\<close>

definition ls_guard :: "real \<Rightarrow> real \<Rightarrow> nat \<Rightarrow> ls_state \<Rightarrow> bool" where
  "ls_guard W1 W2 m s = ((ls_fz s \<ge> W1 \<or> ls_hz s \<le> W2) \<and> ls_i s < m)"

text \<open>The \<^verbatim>\<open>if\<close>/\<^verbatim>\<open>elif\<close> block of the loop body (source lines 68 to 77).\<close>

definition ls_update :: "real \<Rightarrow> real \<Rightarrow> ls_state \<Rightarrow> ls_state" where
  "ls_update W1 W2 s =
     (if ls_fz s > W1 then
        s\<lparr>ls_alpha_max := Fin (ls_alpha s),
          ls_alpha := 0.5 * (ls_alpha_min s + ls_alpha s)\<rparr>
      else if ls_hz s < W2 then
        (if ge_inf (ls_alpha_max s) then
           s\<lparr>ls_alpha := 2 * ls_alpha s\<rparr>
         else
           (case ls_alpha_max s of
              Fin amax \<Rightarrow> s\<lparr>ls_alpha_min := ls_alpha s, ls_alpha := 0.5 * (ls_alpha s + amax)\<rparr>
            | PInf \<Rightarrow> s))
      else s)"

text \<open>One pass through the loop body: the update, then the re-evaluation at the new
  trial point (source lines 79 to 83).\<close>

definition ls_body ::
  "vec \<Rightarrow> vec \<Rightarrow> (vec \<Rightarrow> real) \<Rightarrow> (vec \<Rightarrow> vec) \<Rightarrow> real \<Rightarrow> real \<Rightarrow> ls_state \<Rightarrow> ls_state" where
  "ls_body x p f g W1 W2 s =
     (let s1 = ls_update W1 W2 s;
          z = vadd x (smul (ls_alpha s1) p)
      in s1\<lparr>ls_z := z, ls_fz := f z, ls_hz := dot (g z) p, ls_i := ls_i s + 1\<rparr>)"

text \<open>The \<^verbatim>\<open>while\<close> loop.\<close>

function ls_loop ::
  "vec \<Rightarrow> vec \<Rightarrow> (vec \<Rightarrow> real) \<Rightarrow> (vec \<Rightarrow> vec) \<Rightarrow> real \<Rightarrow> real \<Rightarrow> nat \<Rightarrow> ls_state \<Rightarrow> ls_state" where
  "ls_loop x p f g W1 W2 m s =
     (if ls_guard W1 W2 m s then ls_loop x p f g W1 W2 m (ls_body x p f g W1 W2 s) else s)"
  by pat_completeness auto
termination
  by (relation "measure (\<lambda>(x, p, f, g, W1, W2, m, s). m - ls_i s)")
     (auto simp: ls_guard_def ls_body_def Let_def)

text \<open>\<^verbatim>\<open>line_search_wolfe( x, a, p, f, g, c1, c2, m )\<close>, returning \<open>(alpha, i, chk)\<close>.\<close>

definition line_search_wolfe ::
  "vec \<Rightarrow> real \<Rightarrow> vec \<Rightarrow> (vec \<Rightarrow> real) \<Rightarrow> (vec \<Rightarrow> vec) \<Rightarrow> real \<Rightarrow> real \<Rightarrow> nat \<Rightarrow> real \<times> nat \<times> bool" where
  "line_search_wolfe x a p f g c1 c2 m =
     (let W1 = ls_W1 x a p f g c1;
          W2 = ls_W2 x p g c2;
          s = ls_loop x p f g W1 W2 m (ls_init x a p f g)
      in (ls_alpha s, ls_i s, ls_fz s > W1 \<or> ls_hz s < W2))"

text \<open>
  The same loop, recording every state it passes through: the state at each evaluation
  of the guard, the last one being the state the loop leaves with.
\<close>

function ls_trace ::
  "vec \<Rightarrow> vec \<Rightarrow> (vec \<Rightarrow> real) \<Rightarrow> (vec \<Rightarrow> vec) \<Rightarrow> real \<Rightarrow> real \<Rightarrow> nat \<Rightarrow> ls_state \<Rightarrow> ls_state list" where
  "ls_trace x p f g W1 W2 m s =
     (if ls_guard W1 W2 m s then s # ls_trace x p f g W1 W2 m (ls_body x p f g W1 W2 s) else [s])"
  by pat_completeness auto
termination
  by (relation "measure (\<lambda>(x, p, f, g, W1, W2, m, s). m - ls_i s)")
     (auto simp: ls_guard_def ls_body_def Let_def)

text \<open>The two recursion equations are unfolded by hand, never by the simplifier.\<close>

declare ls_loop.simps [simp del] ls_trace.simps [simp del]

text \<open>The states of one call of \<^verbatim>\<open>line_search_wolfe\<close>.\<close>

definition ls_states ::
  "vec \<Rightarrow> real \<Rightarrow> vec \<Rightarrow> (vec \<Rightarrow> real) \<Rightarrow> (vec \<Rightarrow> vec) \<Rightarrow> real \<Rightarrow> real \<Rightarrow> nat \<Rightarrow> ls_state list" where
  "ls_states x a p f g c1 c2 m =
     ls_trace x p f g (ls_W1 x a p f g c1) (ls_W2 x p g c2) m (ls_init x a p f g)"

subsection \<open>Predicates on the states of the line search\<close>

text \<open>The trial point and the two values kept for it belong to the current step length.\<close>

definition ls_coupled :: "vec \<Rightarrow> vec \<Rightarrow> (vec \<Rightarrow> real) \<Rightarrow> (vec \<Rightarrow> vec) \<Rightarrow> ls_state \<Rightarrow> bool" where
  "ls_coupled x p f g s =
     (ls_z s = vadd x (smul (ls_alpha s) p) \<and> ls_fz s = f (ls_z s) \<and> ls_hz s = dot (g (ls_z s)) p)"

text \<open>The bracket: \<open>0 \<le> alpha_min \<le> alpha \<le> alpha_max\<close> with \<open>alpha\<close> positive.\<close>

definition ls_bracket :: "ls_state \<Rightarrow> bool" where
  "ls_bracket s =
     (0 \<le> ls_alpha_min s \<and> ls_alpha_min s \<le> ls_alpha s \<and> 0 < ls_alpha s \<and>
      le_x (ls_alpha s) (ls_alpha_max s))"

text \<open>The path condition of the doubling statement \<^verbatim>\<open>alpha = 2 * alpha\<close> (source line 74).\<close>

definition ls_doubles :: "real \<Rightarrow> real \<Rightarrow> ls_state \<Rightarrow> bool" where
  "ls_doubles W1 W2 s = (\<not> ls_fz s > W1 \<and> ls_hz s < W2 \<and> ge_inf (ls_alpha_max s))"

text \<open>\<open>alpha\<close> is the midpoint of a bracket with a finite upper end.\<close>

definition ls_midpoint :: "ls_state \<Rightarrow> bool" where
  "ls_midpoint s =
     (case ls_alpha_max s of
        Fin amax \<Rightarrow> ls_alpha s = 0.5 * (ls_alpha_min s + amax)
      | PInf \<Rightarrow> False)"

text \<open>
  The Wolfe conditions at a step length \<open>alpha\<close>, as the specification words them: the
  Armijo bound \<open>f(x) + alpha c1 (g(x) . p)\<close> on \<open>f(z)\<close> and the curvature bound
  \<open>c2 (g(x) . p)\<close> on \<open>h(z)\<close>, at \<open>z = x + alpha p\<close>.
\<close>

definition wolfe_satisfied ::
  "vec \<Rightarrow> vec \<Rightarrow> (vec \<Rightarrow> real) \<Rightarrow> (vec \<Rightarrow> vec) \<Rightarrow> real \<Rightarrow> real \<Rightarrow> real \<Rightarrow> bool" where
  "wolfe_satisfied x p f g c1 c2 alpha =
     (f (vadd x (smul alpha p)) \<le> f x + alpha * c1 * dot (g x) p \<and>
      dot (g (vadd x (smul alpha p))) p \<ge> c2 * dot (g x) p)"

subsection \<open>Test functions\<close>

text \<open>\<open>f(x) = |x - 1|\<^sup>2\<close> with its gradient, and \<open>f(x) = \<Sum> (x\<^sub>i\<^sup>4 - x\<^sub>i)\<close> with its gradient.\<close>

definition ex_f :: "vec \<Rightarrow> real" where
  "ex_f v = (\<Sum>t\<leftarrow>v. (t - 1) * (t - 1))"

definition ex_g :: "vec \<Rightarrow> vec" where
  "ex_g v = map (\<lambda>t. 2 * (t - 1)) v"

definition ex4_f :: "vec \<Rightarrow> real" where
  "ex4_f v = (\<Sum>t\<leftarrow>v. t * t * t * t - t)"

definition ex4_g :: "vec \<Rightarrow> vec" where
  "ex4_g v = map (\<lambda>t. 4 * t * t * t - 1) v"

section \<open>Algorithm for Gauss-Newton\<close>

text \<open>
  The variables of \<^verbatim>\<open>gauss_newton\<close> that its loop reads or writes. \<open>i\<close> and \<open>chk\<close>
  are assigned from the line search and never read.
\<close>

record gn_state =
  gn_x :: vec
  gn_alpha :: real
  gn_ng :: real
  gn_F :: "real list"
  gn_G :: "real list"
  gn_k :: nat

text \<open>The state when the loop is first reached (source lines 112 to 117).\<close>

definition gn_init :: "vec \<Rightarrow> real \<Rightarrow> gn_state" where
  "gn_init x err = \<lparr>gn_x = x, gn_alpha = 1, gn_ng = 2 * err, gn_F = [], gn_G = [], gn_k = 0\<rparr>"

text \<open>The loop guard \<^verbatim>\<open>k < N and ng > err\<close>.\<close>

definition gn_guard :: "nat \<Rightarrow> real \<Rightarrow> gn_state \<Rightarrow> bool" where
  "gn_guard N err s = (gn_k s < N \<and> gn_ng s > err)"

text \<open>
  The direction \<^verbatim>\<open>p = np.linalg.lstsq( Jx, -rx, rcond = None )[0]\<close>. The solver
  belongs to numpy, not to the notebook: it is the parameter \<open>lstsq\<close>, any function from
  a matrix and a right-hand side to a vector.
\<close>

definition gn_dir :: "(mat \<Rightarrow> vec \<Rightarrow> vec) \<Rightarrow> (vec \<Rightarrow> vec) \<Rightarrow> (vec \<Rightarrow> mat) \<Rightarrow> gn_state \<Rightarrow> vec" where
  "gn_dir lstsq r J s =
     (let Jx = J (gn_x s);
          rx = r (gn_x s)
      in lstsq Jx (vneg rx))"

text \<open>One pass through the loop body (source lines 119 to 127).\<close>

definition gn_body ::
  "(mat \<Rightarrow> vec \<Rightarrow> vec) \<Rightarrow> (vec \<Rightarrow> real) \<Rightarrow> (vec \<Rightarrow> vec) \<Rightarrow> (vec \<Rightarrow> vec) \<Rightarrow> (vec \<Rightarrow> mat) \<Rightarrow>
   real \<Rightarrow> real \<Rightarrow> nat \<Rightarrow> gn_state \<Rightarrow> gn_state" where
  "gn_body lstsq f df r J c1 c2 lsi s =
     (let p = gn_dir lstsq r J s;
          (alpha, i, chk) = line_search_wolfe (gn_x s) (gn_alpha s) p f df c1 c2 lsi;
          x = vadd (gn_x s) (smul alpha p);
          ng = la_norm (df x)
      in \<lparr>gn_x = x, gn_alpha = alpha, gn_ng = ng,
          gn_F = gn_F s @ [f x], gn_G = gn_G s @ [ng], gn_k = gn_k s + 1\<rparr>)"

text \<open>The \<^verbatim>\<open>while\<close> loop.\<close>

function gn_loop ::
  "(mat \<Rightarrow> vec \<Rightarrow> vec) \<Rightarrow> (vec \<Rightarrow> real) \<Rightarrow> (vec \<Rightarrow> vec) \<Rightarrow> (vec \<Rightarrow> vec) \<Rightarrow> (vec \<Rightarrow> mat) \<Rightarrow>
   nat \<Rightarrow> real \<Rightarrow> real \<Rightarrow> real \<Rightarrow> nat \<Rightarrow> gn_state \<Rightarrow> gn_state" where
  "gn_loop lstsq f df r J N err c1 c2 lsi s =
     (if gn_guard N err s
      then gn_loop lstsq f df r J N err c1 c2 lsi (gn_body lstsq f df r J c1 c2 lsi s)
      else s)"
  by pat_completeness auto
termination
  by (relation "measure (\<lambda>(lstsq, f, df, r, J, N, err, c1, c2, lsi, s). N - gn_k s)")
     (auto simp: gn_guard_def gn_body_def Let_def split: prod.splits)

text \<open>\<^verbatim>\<open>gauss_newton( x, f, df, r, J, N, err, c1, c2, lsi )\<close>, returning
  \<open>[x, F, G, k]\<close>; the least-squares solver comes first.\<close>

definition gauss_newton ::
  "(mat \<Rightarrow> vec \<Rightarrow> vec) \<Rightarrow> vec \<Rightarrow> (vec \<Rightarrow> real) \<Rightarrow> (vec \<Rightarrow> vec) \<Rightarrow> (vec \<Rightarrow> vec) \<Rightarrow> (vec \<Rightarrow> mat) \<Rightarrow>
   nat \<Rightarrow> real \<Rightarrow> real \<Rightarrow> real \<Rightarrow> nat \<Rightarrow> vec \<times> real list \<times> real list \<times> nat" where
  "gauss_newton lstsq x f df r J N err c1 c2 lsi =
     (let s = gn_loop lstsq f df r J N err c1 c2 lsi (gn_init x err)
      in (gn_x s, gn_F s, gn_G s, gn_k s))"

text \<open>The same loop, recording every state it passes through.\<close>

function gn_trace ::
  "(mat \<Rightarrow> vec \<Rightarrow> vec) \<Rightarrow> (vec \<Rightarrow> real) \<Rightarrow> (vec \<Rightarrow> vec) \<Rightarrow> (vec \<Rightarrow> vec) \<Rightarrow> (vec \<Rightarrow> mat) \<Rightarrow>
   nat \<Rightarrow> real \<Rightarrow> real \<Rightarrow> real \<Rightarrow> nat \<Rightarrow> gn_state \<Rightarrow> gn_state list" where
  "gn_trace lstsq f df r J N err c1 c2 lsi s =
     (if gn_guard N err s
      then s # gn_trace lstsq f df r J N err c1 c2 lsi (gn_body lstsq f df r J c1 c2 lsi s)
      else [s])"
  by pat_completeness auto
termination
  by (relation "measure (\<lambda>(lstsq, f, df, r, J, N, err, c1, c2, lsi, s). N - gn_k s)")
     (auto simp: gn_guard_def gn_body_def Let_def split: prod.splits)

declare gn_loop.simps [simp del] gn_trace.simps [simp del]

text \<open>The states of one call of \<^verbatim>\<open>gauss_newton\<close>.\<close>

definition gn_states ::
  "(mat \<Rightarrow> vec \<Rightarrow> vec) \<Rightarrow> vec \<Rightarrow> (vec \<Rightarrow> real) \<Rightarrow> (vec \<Rightarrow> vec) \<Rightarrow> (vec \<Rightarrow> vec) \<Rightarrow> (vec \<Rightarrow> mat) \<Rightarrow>
   nat \<Rightarrow> real \<Rightarrow> real \<Rightarrow> real \<Rightarrow> nat \<Rightarrow> gn_state list" where
  "gn_states lstsq x f df r J N err c1 c2 lsi =
     gn_trace lstsq f df r J N err c1 c2 lsi (gn_init x err)"

subsection \<open>A test problem\<close>

text \<open>
  The strictly convex quadratic of the specification's tests: \<open>r(x) = x\<close> with the
  identity as Jacobian, \<open>f = |r|\<^sup>2\<close>, and \<open>df = J\<^sup>T r\<close> as in the notebook's example. For
  a matrix of one column the least-squares solution of \<open>A p = b\<close> is
  \<open>(A\<^sup>T b) / (A\<^sup>T A)\<close>, and 0 when the column is 0.
\<close>

definition exq_r :: "vec \<Rightarrow> vec" where
  "exq_r x = x"

definition exq_J :: "vec \<Rightarrow> mat" where
  "exq_J x = [[1]]"

definition exq_f :: "vec \<Rightarrow> real" where
  "exq_f x = dot (exq_r x) (exq_r x)"

definition exq_df :: "vec \<Rightarrow> vec" where
  "exq_df x = [dot (map hd (exq_J x)) (exq_r x)]"

definition lstsq_col :: "mat \<Rightarrow> vec \<Rightarrow> vec" where
  "lstsq_col A b = [dot (map hd A) b / dot (map hd A) (map hd A)]"

text \<open>
  A problem on which the line search gives up: \<open>r(x) = x\<^sup>2 - x + 2\<close> in one
  dimension, with \<open>J = r'\<close>, \<open>f = |r|\<^sup>2\<close> and \<open>df = J\<^sup>T r\<close>.
\<close>

definition exw_r :: "vec \<Rightarrow> vec" where
  "exw_r x = map (\<lambda>t. t * t - t + 2) x"

definition exw_J :: "vec \<Rightarrow> mat" where
  "exw_J x = [map (\<lambda>t. 2 * t - 1) x]"

definition exw_f :: "vec \<Rightarrow> real" where
  "exw_f x = dot (exw_r x) (exw_r x)"

definition exw_df :: "vec \<Rightarrow> vec" where
  "exw_df x = [dot (map hd (exw_J x)) (exw_r x)]"

subsection \<open>The least-squares solve\<close>

text \<open>\<^verbatim>\<open>A @ p\<close> for a matrix given by its rows, and \<^verbatim>\<open>u - v\<close>\<close>

definition mat_vec :: "mat \<Rightarrow> vec \<Rightarrow> vec" where
  "mat_vec A p = map (\<lambda>row. dot row p) A"

definition vsub :: "vec \<Rightarrow> vec \<Rightarrow> vec" where
  "vsub u v = map2 (-) u v"

text \<open>
  Modelled from the spec: the least-squares solver \<^verbatim>\<open>np.linalg.lstsq\<close> is numpy's and
  not part of the notebook. The specification asks of the solve that it minimise the
  norm of the linear residual, whatever the numbers of rows and columns, and that it
  return a solution of minimum norm when there are several; numpy documents
  \<^verbatim>\<open>lstsq( A, b )[0]\<close> as the vector that minimises \<open>|b - A p|\<close>. \<open>lstsq_solves A b p\<close>
  says that \<open>p\<close> is such an answer to the call on \<open>A\<close> and \<open>b\<close>: no vector of its
  length has a smaller residual, and no vector of its length with the same residual has
  a smaller norm.
\<close>

definition lstsq_solves :: "mat \<Rightarrow> vec \<Rightarrow> vec \<Rightarrow> bool" where
  "lstsq_solves A b p =
     ((\<forall>q. length q = length p \<longrightarrow>
          la_norm (vsub b (mat_vec A p)) \<le> la_norm (vsub b (mat_vec A q))) \<and>
      (\<forall>q. length q = length p \<and>
          la_norm (vsub b (mat_vec A q)) \<le> la_norm (vsub b (mat_vec A p)) \<longrightarrow>
          la_norm p \<le> la_norm q))"

text \<open>The residual \<open>|Jx p + rx|\<close> of the linearised problem of one pass.\<close>

definition gn_residual :: "mat \<Rightarrow> vec \<Rightarrow> vec \<Rightarrow> real" where
  "gn_residual Jx rx p = la_norm (vadd (mat_vec Jx p) rx)"

text \<open>\<open>p\<close> minimises \<open>|Jx p + rx|\<close> and has the least norm among the minimisers.\<close>

definition gn_least_squares :: "mat \<Rightarrow> vec \<Rightarrow> vec \<Rightarrow> bool" where
  "gn_least_squares Jx rx p =
     ((\<forall>q. length q = length p \<longrightarrow> gn_residual Jx rx p \<le> gn_residual Jx rx q) \<and>
      (\<forall>q. length q = length p \<and> gn_residual Jx rx q \<le> gn_residual Jx rx p \<longrightarrow>
          la_norm p \<le> la_norm q))"

text \<open>
  The notebook's example for \<open>n = 1\<close>: \<open>r(x) = [x; |x|\<^sup>2]\<close> with the two-row Jacobian
  \<open>J(x) = [1; 2 x]\<close>, \<open>f(x) = |x|\<^sup>2 + |x|\<^sup>4\<close> and \<open>df(x) = J(x)\<^sup>T r(x)\<close>.
\<close>

definition exn_r :: "vec \<Rightarrow> vec" where
  "exn_r x = x @ [dot x x]"

definition exn_J :: "vec \<Rightarrow> mat" where
  "exn_J x = [[1], smul 2 x]"

definition exn_f :: "vec \<Rightarrow> real" where
  "exn_f x = dot x x + dot x x * dot x x"

definition exn_df :: "vec \<Rightarrow> vec" where
  "exn_df x = [dot (map hd (exn_J x)) (exn_r x)]"

section \<open>Facts about the recorded states\<close>

lemma ls_trace_nonempty: "ls_trace x p f g W1 W2 m s \<noteq> []"
  by (subst ls_trace.simps) simp

lemma ls_trace_nth0: "ls_trace x p f g W1 W2 m s ! 0 = s"
  by (subst ls_trace.simps) simp

lemma ls_trace_last: "last (ls_trace x p f g W1 W2 m s) = ls_loop x p f g W1 W2 m s"
proof (induction x p f g W1 W2 m s rule: ls_trace.induct)
  case (1 x p f g W1 W2 m s)
  show ?case
  proof (cases "ls_guard W1 W2 m s")
    case True
    with 1 show ?thesis
      by (subst ls_trace.simps, subst ls_loop.simps) (simp add: ls_trace_nonempty)
  next
    case False
    then show ?thesis
      by (subst ls_trace.simps, subst ls_loop.simps) simp
  qed
qed

lemma ls_trace_step:
  "Suc j < length (ls_trace x p f g W1 W2 m s) \<Longrightarrow>
   ls_guard W1 W2 m (ls_trace x p f g W1 W2 m s ! j) \<and>
   ls_trace x p f g W1 W2 m s ! Suc j = ls_body x p f g W1 W2 (ls_trace x p f g W1 W2 m s ! j)"
proof (induction x p f g W1 W2 m s arbitrary: j rule: ls_trace.induct)
  case (1 x p f g W1 W2 m s)
  let ?T = "ls_trace x p f g W1 W2 m"
  have unfold: "?T s = (if ls_guard W1 W2 m s then s # ?T (ls_body x p f g W1 W2 s) else [s])"
    by (subst ls_trace.simps) simp
  show ?case
  proof (cases "ls_guard W1 W2 m s")
    case False
    with unfold have "?T s = [s]" by simp
    with "1.prems" show ?thesis by simp
  next
    case True
    with unfold have cons: "?T s = s # ?T (ls_body x p f g W1 W2 s)" by simp
    show ?thesis
    proof (cases j)
      case 0
      with cons True show ?thesis by (simp add: ls_trace_nth0)
    next
      case (Suc j')
      with "1.prems" cons have "Suc j' < length (?T (ls_body x p f g W1 W2 s))" by simp
      from "1.IH" [OF True this] Suc cons show ?thesis by simp
    qed
  qed
qed

lemma ls_trace_invariant:
  assumes "P s"
    and "\<And>t. P t \<Longrightarrow> ls_guard W1 W2 m t \<Longrightarrow> P (ls_body x p f g W1 W2 t)"
  shows "\<forall>t \<in> set (ls_trace x p f g W1 W2 m s). P t"
  using assms
proof (induction x p f g W1 W2 m s rule: ls_trace.induct)
  case (1 x p f g W1 W2 m s)
  let ?T = "ls_trace x p f g W1 W2 m"
  have unfold: "?T s = (if ls_guard W1 W2 m s then s # ?T (ls_body x p f g W1 W2 s) else [s])"
    by (subst ls_trace.simps) simp
  show ?case
  proof (cases "ls_guard W1 W2 m s")
    case False
    with unfold "1.prems"(1) show ?thesis by simp
  next
    case True
    with unfold have cons: "?T s = s # ?T (ls_body x p f g W1 W2 s)" by simp
    from "1.prems"(1) True have "P (ls_body x p f g W1 W2 s)" by (rule "1.prems"(2))
    from "1.IH" [OF True this "1.prems"(2)] cons "1.prems"(1) show ?thesis by simp
  qed
qed

lemma ls_loop_exit: "\<not> ls_guard W1 W2 m (ls_loop x p f g W1 W2 m s)"
proof (induction x p f g W1 W2 m s rule: ls_loop.induct)
  case (1 x p f g W1 W2 m s)
  have unfold: "ls_loop x p f g W1 W2 m s =
      (if ls_guard W1 W2 m s then ls_loop x p f g W1 W2 m (ls_body x p f g W1 W2 s) else s)"
    by (subst ls_loop.simps) simp
  show ?case
  proof (cases "ls_guard W1 W2 m s")
    case True
    with unfold "1.IH" show ?thesis by simp
  next
    case False
    with unfold show ?thesis by simp
  qed
qed

section \<open>Invariants of the bracketing loop\<close>

subsection \<open>The update\<close>

lemma ls_update_cases:
  "ls_update W1 W2 s = s \<or>
   ls_update W1 W2 s =
     s\<lparr>ls_alpha_max := Fin (ls_alpha s), ls_alpha := 0.5 * (ls_alpha_min s + ls_alpha s)\<rparr> \<or>
   (ls_doubles W1 W2 s \<and> ls_update W1 W2 s = s\<lparr>ls_alpha := 2 * ls_alpha s\<rparr>) \<or>
   (\<exists>amax. ls_alpha_max s = Fin amax \<and>
      ls_update W1 W2 s = s\<lparr>ls_alpha_min := ls_alpha s, ls_alpha := 0.5 * (ls_alpha s + amax)\<rparr>)"
  by (cases "ls_alpha_max s") (simp_all add: ls_update_def ls_doubles_def)

lemma ls_doubles_update:
  "ls_doubles W1 W2 s \<Longrightarrow> ls_update W1 W2 s = s\<lparr>ls_alpha := 2 * ls_alpha s\<rparr>"
  by (simp add: ls_update_def ls_doubles_def)

lemma ls_doubles_inf: "ls_doubles W1 W2 s \<Longrightarrow> ls_alpha_max s = PInf"
  by (cases "ls_alpha_max s") (simp_all add: ls_doubles_def)

lemma ls_update_finite:
  assumes "ls_alpha_max s \<noteq> PInf"
  shows "ls_alpha_max (ls_update W1 W2 s) \<noteq> PInf \<and>
         (ls_update W1 W2 s = s \<or> ls_midpoint (ls_update W1 W2 s))"
proof -
  from assms obtain amax where fin: "ls_alpha_max s = Fin amax"
    by (cases "ls_alpha_max s") simp_all
  then show ?thesis
    by (simp add: ls_update_def ls_midpoint_def)
qed

lemma ls_update_stay:
  "ls_fz s \<le> W1 \<Longrightarrow> ls_hz s \<ge> W2 \<Longrightarrow> ls_update W1 W2 s = s"
  by (simp add: ls_update_def)

lemma ls_bracket_update: "ls_bracket s \<Longrightarrow> ls_bracket (ls_update W1 W2 s)"
  using ls_update_cases [of W1 W2 s]
  by (auto simp: ls_bracket_def dest: ls_doubles_inf)

lemma ls_update_monotone:
  "ls_bracket s \<Longrightarrow>
   ls_alpha_min s \<le> ls_alpha_min (ls_update W1 W2 s) \<and>
   x_le (ls_alpha_max (ls_update W1 W2 s)) (ls_alpha_max s)"
  using ls_update_cases [of W1 W2 s]
  by (cases "ls_alpha_max s") (auto simp: ls_bracket_def dest: ls_doubles_inf)

subsection \<open>The body\<close>

lemma ls_body_fields:
  "ls_alpha_min (ls_body x p f g W1 W2 s) = ls_alpha_min (ls_update W1 W2 s)"
  "ls_alpha (ls_body x p f g W1 W2 s) = ls_alpha (ls_update W1 W2 s)"
  "ls_alpha_max (ls_body x p f g W1 W2 s) = ls_alpha_max (ls_update W1 W2 s)"
  "ls_i (ls_body x p f g W1 W2 s) = Suc (ls_i s)"
  by (simp_all add: ls_body_def Let_def)

lemma ls_coupled_init: "ls_coupled x p f g (ls_init x a p f g)"
  by (simp add: ls_coupled_def ls_init_def Let_def)

lemma ls_coupled_body: "ls_coupled x p f g (ls_body x p f g W1 W2 s)"
  by (simp add: ls_coupled_def ls_body_def Let_def)

lemma ls_bracket_init: "0 < a \<Longrightarrow> ls_bracket (ls_init x a p f g)"
  by (simp add: ls_bracket_def ls_init_def Let_def)

lemma ls_bracket_body: "ls_bracket s \<Longrightarrow> ls_bracket (ls_body x p f g W1 W2 s)"
  using ls_bracket_update [of s W1 W2]
  by (simp add: ls_bracket_def ls_body_fields)

lemma ls_body_stay:
  assumes "ls_coupled x p f g s" and "ls_fz s \<le> W1" and "ls_hz s \<ge> W2"
  shows "ls_body x p f g W1 W2 s = s\<lparr>ls_i := Suc (ls_i s)\<rparr>"
  using assms by (simp add: ls_body_def Let_def ls_update_stay ls_coupled_def)

subsection \<open>The states of a call\<close>

lemma ls_states_nonempty: "ls_states x a p f g c1 c2 m \<noteq> []"
  by (simp add: ls_states_def ls_trace_nonempty)

lemma ls_states_nth0: "ls_states x a p f g c1 c2 m ! 0 = ls_init x a p f g"
  by (simp add: ls_states_def ls_trace_nth0)

lemma ls_states_step:
  "Suc j < length (ls_states x a p f g c1 c2 m) \<Longrightarrow>
   ls_guard (ls_W1 x a p f g c1) (ls_W2 x p g c2) m (ls_states x a p f g c1 c2 m ! j) \<and>
   ls_states x a p f g c1 c2 m ! Suc j =
     ls_body x p f g (ls_W1 x a p f g c1) (ls_W2 x p g c2) (ls_states x a p f g c1 c2 m ! j)"
  unfolding ls_states_def by (rule ls_trace_step)

lemma ls_states_coupled:
  "t \<in> set (ls_states x a p f g c1 c2 m) \<Longrightarrow> ls_coupled x p f g t"
proof -
  have "\<forall>t \<in> set (ls_trace x p f g (ls_W1 x a p f g c1) (ls_W2 x p g c2) m (ls_init x a p f g)).
          ls_coupled x p f g t"
    by (rule ls_trace_invariant) (simp_all add: ls_coupled_init ls_coupled_body)
  then show "t \<in> set (ls_states x a p f g c1 c2 m) \<Longrightarrow> ls_coupled x p f g t"
    by (simp add: ls_states_def)
qed

lemma ls_states_bracket:
  assumes "0 < a"
  shows "t \<in> set (ls_states x a p f g c1 c2 m) \<Longrightarrow> ls_bracket t"
proof -
  have "\<forall>t \<in> set (ls_trace x p f g (ls_W1 x a p f g c1) (ls_W2 x p g c2) m (ls_init x a p f g)).
          ls_bracket t"
    by (rule ls_trace_invariant) (simp_all add: assms ls_bracket_init ls_bracket_body)
  then show "t \<in> set (ls_states x a p f g c1 c2 m) \<Longrightarrow> ls_bracket t"
    by (simp add: ls_states_def)
qed

lemma ls_states_counter_le:
  "t \<in> set (ls_states x a p f g c1 c2 m) \<Longrightarrow> ls_i t \<le> m"
proof -
  have "\<forall>t \<in> set (ls_trace x p f g (ls_W1 x a p f g c1) (ls_W2 x p g c2) m (ls_init x a p f g)).
          ls_i t \<le> m"
    by (rule ls_trace_invariant) (simp_all add: ls_init_def Let_def ls_guard_def ls_body_fields)
  then show "t \<in> set (ls_states x a p f g c1 c2 m) \<Longrightarrow> ls_i t \<le> m"
    by (simp add: ls_states_def)
qed

lemma ls_states_counter:
  "j < length (ls_states x a p f g c1 c2 m) \<Longrightarrow> ls_i (ls_states x a p f g c1 c2 m ! j) = j"
proof (induction j)
  case 0
  then show ?case by (simp add: ls_states_nth0 ls_init_def Let_def)
next
  case (Suc j)
  then show ?case using ls_states_step [of j x a p f g c1 c2 m]
    by (simp add: ls_body_fields)
qed

lemma ls_states_last_exit:
  "\<not> ls_guard (ls_W1 x a p f g c1) (ls_W2 x p g c2) m (last (ls_states x a p f g c1 c2 m))"
  by (simp add: ls_states_def ls_trace_last ls_loop_exit)

lemma line_search_wolfe_last:
  "line_search_wolfe x a p f g c1 c2 m =
     (ls_alpha (last (ls_states x a p f g c1 c2 m)),
      ls_i (last (ls_states x a p f g c1 c2 m)),
      ls_fz (last (ls_states x a p f g c1 c2 m)) > ls_W1 x a p f g c1 \<or>
      ls_hz (last (ls_states x a p f g c1 c2 m)) < ls_W2 x p g c2)"
  by (simp add: line_search_wolfe_def ls_states_def ls_trace_last Let_def)

lemma ls_states_last_mem:
  "last (ls_states x a p f g c1 c2 m) \<in> set (ls_states x a p f g c1 c2 m)"
  by (simp add: ls_states_nonempty)

lemma ls_states_last_nth:
  "last (ls_states x a p f g c1 c2 m) =
     ls_states x a p f g c1 c2 m ! (length (ls_states x a p f g c1 c2 m) - 1)"
  by (simp add: last_conv_nth ls_states_nonempty)

lemma ls_midpoint_body:
  "ls_midpoint (ls_body x p f g W1 W2 s) = ls_midpoint (ls_update W1 W2 s)"
  by (cases "ls_alpha_max (ls_update W1 W2 s)") (simp_all add: ls_midpoint_def ls_body_fields)

lemma ls_states_stay_finite:
  assumes "ls_alpha_max (ls_states x a p f g c1 c2 m ! j) \<noteq> PInf"
  shows "j \<le> k \<Longrightarrow> k < length (ls_states x a p f g c1 c2 m) \<Longrightarrow>
         ls_alpha_max (ls_states x a p f g c1 c2 m ! k) \<noteq> PInf"
proof (induction k)
  case 0
  with assms show ?case by simp
next
  case (Suc k)
  show ?case
  proof (cases "j = Suc k")
    case True
    with assms show ?thesis by simp
  next
    case False
    with Suc.prems have "j \<le> k" and "k < length (ls_states x a p f g c1 c2 m)" by simp_all
    then have fin: "ls_alpha_max (ls_states x a p f g c1 c2 m ! k) \<noteq> PInf" by (rule Suc.IH)
    from ls_states_step [OF Suc.prems(2)] ls_update_finite [OF fin]
    show ?thesis by (simp add: ls_body_fields)
  qed
qed

lemma ls_states_stuck:
  assumes j: "j < length (ls_states x a p f g c1 c2 m)"
    and fz: "ls_fz (ls_states x a p f g c1 c2 m ! j) \<le> ls_W1 x a p f g c1"
    and hz: "ls_hz (ls_states x a p f g c1 c2 m ! j) \<ge> ls_W2 x p g c2"
  shows "j \<le> k \<Longrightarrow> k < length (ls_states x a p f g c1 c2 m) \<Longrightarrow>
         ls_states x a p f g c1 c2 m ! k = (ls_states x a p f g c1 c2 m ! j)\<lparr>ls_i := k\<rparr>"
proof (induction k)
  case 0
  then have "j = 0" by simp
  with ls_states_counter [OF j] show ?case by simp
next
  case (Suc k)
  let ?S = "ls_states x a p f g c1 c2 m"
  show ?case
  proof (cases "j = Suc k")
    case True
    with ls_states_counter [OF j] show ?thesis by simp
  next
    case False
    with Suc.prems have "j \<le> k" and k: "k < length ?S" by simp_all
    then have eq: "?S ! k = (?S ! j)\<lparr>ls_i := k\<rparr>" by (rule Suc.IH)
    from k have "?S ! k \<in> set ?S" by simp
    then have "ls_coupled x p f g (?S ! k)" by (rule ls_states_coupled)
    moreover from eq fz have "ls_fz (?S ! k) \<le> ls_W1 x a p f g c1" by simp
    moreover from eq hz have "ls_hz (?S ! k) \<ge> ls_W2 x p g c2" by simp
    ultimately have "ls_body x p f g (ls_W1 x a p f g c1) (ls_W2 x p g c2) (?S ! k) =
        (?S ! k)\<lparr>ls_i := Suc (ls_i (?S ! k))\<rparr>"
      by (rule ls_body_stay)
    with ls_states_step [OF Suc.prems(2)] eq show ?thesis by simp
  qed
qed

text \<open>Unfolding a call on given arguments.\<close>

lemmas ls_eval =
  line_search_wolfe_def ls_states_def ls_loop.simps ls_trace.simps ls_init_def ls_W1_def ls_W2_def
  ls_guard_def ls_body_def ls_update_def dot_def smul_def vadd_def Let_def

section \<open>Facts about the recorded states of Gauss-Newton\<close>

lemma gn_trace_unfold:
  "gn_trace lstsq f df r J N err c1 c2 lsi s =
     (if gn_guard N err s
      then s # gn_trace lstsq f df r J N err c1 c2 lsi (gn_body lstsq f df r J c1 c2 lsi s)
      else [s])"
  by (subst gn_trace.simps) simp

lemma gn_loop_unfold:
  "gn_loop lstsq f df r J N err c1 c2 lsi s =
     (if gn_guard N err s
      then gn_loop lstsq f df r J N err c1 c2 lsi (gn_body lstsq f df r J c1 c2 lsi s)
      else s)"
  by (subst gn_loop.simps) simp

lemma gn_trace_nonempty: "gn_trace lstsq f df r J N err c1 c2 lsi s \<noteq> []"
  by (subst gn_trace.simps) simp

lemma gn_trace_nth0: "gn_trace lstsq f df r J N err c1 c2 lsi s ! 0 = s"
  by (subst gn_trace.simps) simp

lemma gn_trace_last:
  "last (gn_trace lstsq f df r J N err c1 c2 lsi s) = gn_loop lstsq f df r J N err c1 c2 lsi s"
proof (induction lstsq f df r J N err c1 c2 lsi s rule: gn_trace.induct)
  case (1 lstsq f df r J N err c1 c2 lsi s)
  show ?case
  proof (cases "gn_guard N err s")
    case True
    with 1 show ?thesis
      by (subst gn_trace_unfold, subst gn_loop_unfold) (simp add: gn_trace_nonempty)
  next
    case False
    then show ?thesis
      by (subst gn_trace_unfold, subst gn_loop_unfold) simp
  qed
qed

lemma gn_trace_step:
  "Suc j < length (gn_trace lstsq f df r J N err c1 c2 lsi s) \<Longrightarrow>
   gn_guard N err (gn_trace lstsq f df r J N err c1 c2 lsi s ! j) \<and>
   gn_trace lstsq f df r J N err c1 c2 lsi s ! Suc j =
     gn_body lstsq f df r J c1 c2 lsi (gn_trace lstsq f df r J N err c1 c2 lsi s ! j)"
proof (induction lstsq f df r J N err c1 c2 lsi s arbitrary: j rule: gn_trace.induct)
  case (1 lstsq f df r J N err c1 c2 lsi s)
  let ?T = "gn_trace lstsq f df r J N err c1 c2 lsi"
  let ?b = "gn_body lstsq f df r J c1 c2 lsi"
  show ?case
  proof (cases "gn_guard N err s")
    case False
    then have "?T s = [s]" by (subst gn_trace_unfold) simp
    with "1.prems" show ?thesis by simp
  next
    case True
    then have cons: "?T s = s # ?T (?b s)" by (subst gn_trace_unfold) simp
    show ?thesis
    proof (cases j)
      case 0
      with cons True show ?thesis by (simp add: gn_trace_nth0)
    next
      case (Suc j')
      with "1.prems" cons have "Suc j' < length (?T (?b s))" by simp
      from "1.IH" [OF True this] Suc cons show ?thesis by simp
    qed
  qed
qed

lemma gn_trace_length:
  "gn_k s \<le> N \<Longrightarrow> length (gn_trace lstsq f df r J N err c1 c2 lsi s) \<le> Suc (N - gn_k s)"
proof (induction lstsq f df r J N err c1 c2 lsi s rule: gn_trace.induct)
  case (1 lstsq f df r J N err c1 c2 lsi s)
  let ?T = "gn_trace lstsq f df r J N err c1 c2 lsi"
  let ?b = "gn_body lstsq f df r J c1 c2 lsi"
  show ?case
  proof (cases "gn_guard N err s")
    case False
    then have "?T s = [s]" by (subst gn_trace_unfold) simp
    then show ?thesis by simp
  next
    case True
    then have cons: "?T s = s # ?T (?b s)" by (subst gn_trace_unfold) simp
    have k: "gn_k (?b s) = Suc (gn_k s)"
      by (simp add: gn_body_def Let_def split: prod.splits)
    from True have "gn_k s < N" by (simp add: gn_guard_def)
    with k have "gn_k (?b s) \<le> N" by simp
    from "1.IH" [OF True this] k cons \<open>gn_k s < N\<close> show ?thesis by simp
  qed
qed

lemma gn_loop_exit:
  "\<not> gn_guard N err (gn_loop lstsq f df r J N err c1 c2 lsi s)"
proof (induction lstsq f df r J N err c1 c2 lsi s rule: gn_loop.induct)
  case (1 lstsq f df r J N err c1 c2 lsi s)
  show ?case
  proof (cases "gn_guard N err s")
    case True
    with "1.IH" show ?thesis by (subst gn_loop_unfold) simp
  next
    case False
    then show ?thesis by (subst gn_loop_unfold) simp
  qed
qed

lemma la_norm_single: "la_norm [t] = \<bar>t\<bar>"
  by (simp add: la_norm_def dot_def)

lemma gn_body_fields:
  "gn_k (gn_body lstsq f df r J c1 c2 lsi s) = Suc (gn_k s)"
  "gn_alpha (gn_body lstsq f df r J c1 c2 lsi s) =
     fst (line_search_wolfe (gn_x s) (gn_alpha s) (gn_dir lstsq r J s) f df c1 c2 lsi)"
  "gn_x (gn_body lstsq f df r J c1 c2 lsi s) =
     vadd (gn_x s) (smul (gn_alpha (gn_body lstsq f df r J c1 c2 lsi s)) (gn_dir lstsq r J s))"
  "gn_ng (gn_body lstsq f df r J c1 c2 lsi s) =
     la_norm (df (gn_x (gn_body lstsq f df r J c1 c2 lsi s)))"
  "gn_F (gn_body lstsq f df r J c1 c2 lsi s) =
     gn_F s @ [f (gn_x (gn_body lstsq f df r J c1 c2 lsi s))]"
  "gn_G (gn_body lstsq f df r J c1 c2 lsi s) =
     gn_G s @ [la_norm (df (gn_x (gn_body lstsq f df r J c1 c2 lsi s)))]"
  by (simp_all add: gn_body_def Let_def split: prod.splits)

lemma gn_states_nonempty: "gn_states lstsq x f df r J N err c1 c2 lsi \<noteq> []"
  by (simp add: gn_states_def gn_trace_nonempty)

lemma gn_states_nth0: "gn_states lstsq x f df r J N err c1 c2 lsi ! 0 = gn_init x err"
  by (simp add: gn_states_def gn_trace_nth0)

lemma gn_states_step:
  "Suc j < length (gn_states lstsq x f df r J N err c1 c2 lsi) \<Longrightarrow>
   gn_guard N err (gn_states lstsq x f df r J N err c1 c2 lsi ! j) \<and>
   gn_states lstsq x f df r J N err c1 c2 lsi ! Suc j =
     gn_body lstsq f df r J c1 c2 lsi (gn_states lstsq x f df r J N err c1 c2 lsi ! j)"
  unfolding gn_states_def by (rule gn_trace_step)

lemma gn_states_length: "length (gn_states lstsq x f df r J N err c1 c2 lsi) \<le> Suc N"
  using gn_trace_length [of "gn_init x err" N lstsq f df r J err c1 c2 lsi]
  by (simp add: gn_states_def gn_init_def)

lemma gn_states_last_nth:
  "last (gn_states lstsq x f df r J N err c1 c2 lsi) =
     gn_states lstsq x f df r J N err c1 c2 lsi !
       (length (gn_states lstsq x f df r J N err c1 c2 lsi) - 1)"
  by (simp add: last_conv_nth gn_states_nonempty)

lemma gn_states_last_exit:
  "\<not> gn_guard N err (last (gn_states lstsq x f df r J N err c1 c2 lsi))"
  by (simp add: gn_states_def gn_trace_last gn_loop_exit)

lemma gauss_newton_last:
  "gauss_newton lstsq x f df r J N err c1 c2 lsi =
     (gn_x (last (gn_states lstsq x f df r J N err c1 c2 lsi)),
      gn_F (last (gn_states lstsq x f df r J N err c1 c2 lsi)),
      gn_G (last (gn_states lstsq x f df r J N err c1 c2 lsi)),
      gn_k (last (gn_states lstsq x f df r J N err c1 c2 lsi)))"
  by (simp add: gauss_newton_def gn_states_def gn_trace_last Let_def)

lemma gn_states_counter:
  "j < length (gn_states lstsq x f df r J N err c1 c2 lsi) \<Longrightarrow>
   gn_k (gn_states lstsq x f df r J N err c1 c2 lsi ! j) = j \<and>
   length (gn_F (gn_states lstsq x f df r J N err c1 c2 lsi ! j)) = j \<and>
   length (gn_G (gn_states lstsq x f df r J N err c1 c2 lsi ! j)) = j"
proof (induction j)
  case 0
  then show ?case by (simp add: gn_states_nth0 gn_init_def)
next
  case (Suc j)
  then show ?case using gn_states_step [of j lstsq x f df r J N err c1 c2 lsi]
    by (simp add: gn_body_fields)
qed

lemma gn_states_history_kept:
  "j \<le> k \<Longrightarrow> k < length (gn_states lstsq x f df r J N err c1 c2 lsi) \<Longrightarrow>
   take j (gn_F (gn_states lstsq x f df r J N err c1 c2 lsi ! k)) =
     gn_F (gn_states lstsq x f df r J N err c1 c2 lsi ! j) \<and>
   take j (gn_G (gn_states lstsq x f df r J N err c1 c2 lsi ! k)) =
     gn_G (gn_states lstsq x f df r J N err c1 c2 lsi ! j)"
proof (induction k)
  case 0
  then show ?case by (simp add: gn_states_nth0 gn_init_def)
next
  case (Suc k)
  let ?T = "gn_states lstsq x f df r J N err c1 c2 lsi"
  show ?case
  proof (cases "j = Suc k")
    case True
    with gn_states_counter [OF Suc.prems(2)] show ?thesis by simp
  next
    case False
    with Suc.prems have jk: "j \<le> k" and k: "k < length ?T" by simp_all
    from gn_states_counter [OF k] jk
    have "j \<le> length (gn_F (?T ! k))" and "j \<le> length (gn_G (?T ! k))" by simp_all
    with Suc.IH [OF jk k] gn_states_step [OF Suc.prems(2)] show ?thesis
      by (simp add: gn_body_fields)
  qed
qed

lemma gauss_newton_count:
  "gauss_newton lstsq x f df r J N err c1 c2 lsi = (x', F, G, k) \<Longrightarrow>
   length (gn_states lstsq x f df r J N err c1 c2 lsi) = Suc k \<and>
   x' = gn_x (gn_states lstsq x f df r J N err c1 c2 lsi ! k) \<and>
   F = gn_F (gn_states lstsq x f df r J N err c1 c2 lsi ! k) \<and>
   G = gn_G (gn_states lstsq x f df r J N err c1 c2 lsi ! k)"
proof -
  let ?T = "gn_states lstsq x f df r J N err c1 c2 lsi"
  assume "gauss_newton lstsq x f df r J N err c1 c2 lsi = (x', F, G, k)"
  then have res: "x' = gn_x (last ?T)" "F = gn_F (last ?T)" "G = gn_G (last ?T)" "k = gn_k (last ?T)"
    by (simp_all add: gauss_newton_last)
  have "length ?T - 1 < length ?T"
    using gn_states_nonempty [of lstsq x f df r J N err c1 c2 lsi] by simp
  from gn_states_counter [OF this] res(4) have k: "length ?T - 1 = k"
    by (simp add: gn_states_last_nth)
  then have last: "last ?T = ?T ! k"
    by (simp add: gn_states_last_nth)
  from k gn_states_nonempty [of lstsq x f df r J N err c1 c2 lsi] have "length ?T = Suc k"
    by (cases ?T) simp_all
  with res(1,2,3) show ?thesis unfolding last by simp
qed

subsection \<open>The test problems, step by step\<close>

lemma gn_body_eq:
  assumes "gn_dir lstsq r J s = p"
    and "line_search_wolfe (gn_x s) (gn_alpha s) p f df c1 c2 lsi = (alpha, i, chk)"
  shows "gn_body lstsq f df r J c1 c2 lsi s =
     \<lparr>gn_x = vadd (gn_x s) (smul alpha p), gn_alpha = alpha,
      gn_ng = la_norm (df (vadd (gn_x s) (smul alpha p))),
      gn_F = gn_F s @ [f (vadd (gn_x s) (smul alpha p))],
      gn_G = gn_G s @ [la_norm (df (vadd (gn_x s) (smul alpha p)))],
      gn_k = Suc (gn_k s)\<rparr>"
  using assms by (simp add: gn_body_def Let_def)

lemma gn_trace_cons:
  "gn_guard N err s \<Longrightarrow> gn_body lstsq f df r J c1 c2 lsi s = s' \<Longrightarrow>
   gn_trace lstsq f df r J N err c1 c2 lsi s = s # gn_trace lstsq f df r J N err c1 c2 lsi s'"
  by (subst gn_trace_unfold) simp

lemma gn_trace_stop:
  "\<not> gn_guard N err s \<Longrightarrow> gn_trace lstsq f df r J N err c1 c2 lsi s = [s]"
  by (subst gn_trace_unfold) simp

lemmas exw_defs = exw_r_def exw_J_def exw_f_def exw_df_def lstsq_col_def

lemma exw_body0:
  "gn_body lstsq_col exw_f exw_df exw_r exw_J (1/1000) (1/2) 1 (gn_init [1] (1/1000)) =
     \<lparr>gn_x = [0], gn_alpha = 1/2, gn_ng = 2, gn_F = [4], gn_G = [2], gn_k = 1\<rparr>"
proof -
  have p: "gn_dir lstsq_col exw_r exw_J (gn_init [1] (1/1000)) = [- 2]"
    by (simp add: gn_dir_def gn_init_def vneg_def dot_def exw_defs)
  have ls: "line_search_wolfe (gn_x (gn_init [1] (1/1000))) (gn_alpha (gn_init [1] (1/1000))) [- 2]
              exw_f exw_df (1/1000) (1/2) 1 = (1/2, 1, True)"
    by (simp add: gn_init_def ls_eval exw_defs)
  show ?thesis
    unfolding gn_body_eq [OF p ls]
    by (simp add: gn_init_def la_norm_single vadd_def smul_def dot_def exw_defs)
qed

lemma exw_body1:
  "gn_body lstsq_col exw_f exw_df exw_r exw_J (1/1000) (1/2) 1
     \<lparr>gn_x = [0], gn_alpha = 1/2, gn_ng = 2, gn_F = [4], gn_G = [2], gn_k = 1\<rparr> =
     \<lparr>gn_x = [1/2], gn_alpha = 1/4, gn_ng = 0, gn_F = [4, 49/16], gn_G = [2, 0], gn_k = 2\<rparr>"
proof -
  let ?s = "\<lparr>gn_x = [0], gn_alpha = 1/2, gn_ng = 2, gn_F = [4], gn_G = [2], gn_k = 1\<rparr>"
  have p: "gn_dir lstsq_col exw_r exw_J ?s = [2]"
    by (simp add: gn_dir_def vneg_def dot_def exw_defs)
  have ls: "line_search_wolfe (gn_x ?s) (gn_alpha ?s) [2] exw_f exw_df (1/1000) (1/2) 1 = (1/4, 1, False)"
    by (simp add: ls_eval exw_defs)
  show ?thesis
    unfolding gn_body_eq [OF p ls]
    by (simp add: la_norm_single vadd_def smul_def dot_def exw_defs)
qed

lemma exw_states:
  "gn_states lstsq_col [1] exw_f exw_df exw_r exw_J 2 (1/1000) (1/1000) (1/2) 1 =
     [gn_init [1] (1/1000),
      \<lparr>gn_x = [0], gn_alpha = 1/2, gn_ng = 2, gn_F = [4], gn_G = [2], gn_k = 1\<rparr>,
      \<lparr>gn_x = [1/2], gn_alpha = 1/4, gn_ng = 0, gn_F = [4, 49/16], gn_G = [2, 0], gn_k = 2\<rparr>]"
proof -
  have g0: "gn_guard 2 (1/1000) (gn_init [1] (1/1000))"
    by (simp add: gn_guard_def gn_init_def)
  have g1: "gn_guard 2 (1/1000) \<lparr>gn_x = [0], gn_alpha = 1/2, gn_ng = 2, gn_F = [4], gn_G = [2], gn_k = 1\<rparr>"
    by (simp add: gn_guard_def)
  have g2: "\<not> gn_guard 2 (1/1000)
      \<lparr>gn_x = [1/2], gn_alpha = 1/4, gn_ng = 0, gn_F = [4, 49/16], gn_G = [2, 0], gn_k = 2\<rparr>"
    by (simp add: gn_guard_def)
  show ?thesis
    unfolding gn_states_def gn_trace_cons [OF g0 exw_body0] gn_trace_cons [OF g1 exw_body1]
      gn_trace_stop [OF g2] ..
qed

lemmas exq_defs = exq_r_def exq_J_def exq_f_def exq_df_def lstsq_col_def

lemma exq_body_from_1:
  "gn_body lstsq_col exq_f exq_df exq_r exq_J (1/1000) (1/2) 10 (gn_init [1] (1/1000)) =
     \<lparr>gn_x = [0], gn_alpha = 1, gn_ng = 0, gn_F = [0], gn_G = [0], gn_k = 1\<rparr>"
proof -
  have p: "gn_dir lstsq_col exq_r exq_J (gn_init [1] (1/1000)) = [- 1]"
    by (simp add: gn_dir_def gn_init_def vneg_def dot_def exq_defs)
  have ls: "line_search_wolfe (gn_x (gn_init [1] (1/1000))) (gn_alpha (gn_init [1] (1/1000))) [- 1]
              exq_f exq_df (1/1000) (1/2) 10 = (1, 0, False)"
    by (simp add: gn_init_def ls_eval exq_defs)
  show ?thesis
    unfolding gn_body_eq [OF p ls]
    by (simp add: gn_init_def la_norm_single vadd_def smul_def dot_def exq_defs)
qed

lemma exq_states_from_1:
  "gn_states lstsq_col [1] exq_f exq_df exq_r exq_J 20 (1/1000) (1/1000) (1/2) 10 =
     [gn_init [1] (1/1000),
      \<lparr>gn_x = [0], gn_alpha = 1, gn_ng = 0, gn_F = [0], gn_G = [0], gn_k = 1\<rparr>]"
proof -
  have g0: "gn_guard 20 (1/1000) (gn_init [1] (1/1000))"
    by (simp add: gn_guard_def gn_init_def)
  have g1: "\<not> gn_guard 20 (1/1000)
      \<lparr>gn_x = [0], gn_alpha = 1, gn_ng = 0, gn_F = [0], gn_G = [0], gn_k = 1\<rparr>"
    by (simp add: gn_guard_def)
  show ?thesis
    unfolding gn_states_def gn_trace_cons [OF g0 exq_body_from_1] gn_trace_stop [OF g1] ..
qed

lemma exq_body_from_0:
  "gn_body lstsq_col exq_f exq_df exq_r exq_J (1/1000) (1/2) 2 (gn_init [0] (1/1000)) =
     \<lparr>gn_x = [0], gn_alpha = 1, gn_ng = 0, gn_F = [0], gn_G = [0], gn_k = 1\<rparr>"
proof -
  have p: "gn_dir lstsq_col exq_r exq_J (gn_init [0] (1/1000)) = [0]"
    by (simp add: gn_dir_def gn_init_def vneg_def dot_def exq_defs)
  have ls: "line_search_wolfe (gn_x (gn_init [0] (1/1000))) (gn_alpha (gn_init [0] (1/1000))) [0]
              exq_f exq_df (1/1000) (1/2) 2 = (1, 2, False)"
    by (simp add: gn_init_def ls_eval exq_defs)
  show ?thesis
    unfolding gn_body_eq [OF p ls]
    by (simp add: gn_init_def la_norm_single vadd_def smul_def dot_def exq_defs)
qed

lemma exq_states_from_0:
  "gn_states lstsq_col [0] exq_f exq_df exq_r exq_J 20 (1/1000) (1/1000) (1/2) 2 =
     [gn_init [0] (1/1000),
      \<lparr>gn_x = [0], gn_alpha = 1, gn_ng = 0, gn_F = [0], gn_G = [0], gn_k = 1\<rparr>]"
proof -
  have g0: "gn_guard 20 (1/1000) (gn_init [0] (1/1000))"
    by (simp add: gn_guard_def gn_init_def)
  have g1: "\<not> gn_guard 20 (1/1000)
      \<lparr>gn_x = [0], gn_alpha = 1, gn_ng = 0, gn_F = [0], gn_G = [0], gn_k = 1\<rparr>"
    by (simp add: gn_guard_def)
  show ?thesis
    unfolding gn_states_def gn_trace_cons [OF g0 exq_body_from_0] gn_trace_stop [OF g1] ..
qed

subsection \<open>The solver's answer as a Gauss-Newton direction\<close>

lemma dot_self_sub_neg:
  "dot (vsub (vneg rx) u) (vsub (vneg rx) u) = dot (vadd u rx) (vadd u rx)"
proof (induction rx arbitrary: u)
  case Nil
  then show ?case by (simp add: dot_def vsub_def vneg_def vadd_def)
next
  case (Cons c rx)
  show ?case
  proof (cases u)
    case Nil
    then show ?thesis by (simp add: dot_def vsub_def vneg_def vadd_def)
  next
    case (Cons d u')
    have "(- c - d) * (- c - d) = (d + c) * (d + c)" by (simp add: algebra_simps)
    with Cons.IH [of u'] Cons show ?thesis
      by (simp add: dot_def vsub_def vneg_def vadd_def)
  qed
qed

lemma la_norm_sub_neg: "la_norm (vsub (vneg rx) (mat_vec A q)) = gn_residual A rx q"
  by (simp add: la_norm_def gn_residual_def dot_self_sub_neg)

lemma lstsq_solves_least_squares: "lstsq_solves A (vneg rx) p = gn_least_squares A rx p"
  by (simp add: lstsq_solves_def gn_least_squares_def la_norm_sub_neg)

lemma gn_dir_call: "gn_dir lstsq r J s = lstsq (J (gn_x s)) (vneg (r (gn_x s)))"
  by (simp add: gn_dir_def Let_def)

lemma dot_self_nonneg: "0 \<le> dot v v"
  by (induction v) (simp_all add: dot_def)

lemma la_norm_le_iff: "la_norm u \<le> la_norm v \<longleftrightarrow> dot u u \<le> dot v v"
  by (simp add: la_norm_def)

lemmas exn_defs = exn_r_def exn_J_def exn_f_def exn_df_def lstsq_col_def

lemma exn_solved: "lstsq_solves [[1], [2]] [- 1, - 1] [- (3/5)]"
proof -
  have sq: "(- 1 - t) * (- 1 - t) + (- 1 - 2 * t) * (- 1 - 2 * t) = 5 * ((t + 3/5) * (t + 3/5)) + 1/5"
    for t :: real
    by (simp add: algebra_simps)
  have res: "dot (vsub [- 1, - 1] (mat_vec [[1], [2]] [t])) (vsub [- 1, - 1] (mat_vec [[1], [2]] [t])) =
      5 * ((t + 3/5) * (t + 3/5)) + 1/5" for t :: real
    using sq [of t] by (simp add: dot_def vsub_def mat_vec_def)
  have least: "la_norm (vsub [- 1, - 1] (mat_vec [[1], [2]] [- (3/5)]))
      \<le> la_norm (vsub [- 1, - 1] (mat_vec [[1], [2]] q))" if "length q = 1" for q
  proof -
    from that obtain t where q: "q = [t]" by (cases q) simp_all
    have "0 \<le> (t + 3/5) * (t + 3/5)" by simp
    then show ?thesis unfolding q la_norm_le_iff res by simp
  qed
  have norm: "la_norm [- (3/5)] \<le> la_norm q"
    if "length q = 1"
      and "la_norm (vsub [- 1, - 1] (mat_vec [[1], [2]] q))
        \<le> la_norm (vsub [- 1, - 1] (mat_vec [[1], [2]] [- (3/5)]))" for q
  proof -
    from that(1) obtain t where q: "q = [t]" by (cases q) simp_all
    from that(2) have "(t + 3/5) * (t + 3/5) \<le> 0" unfolding q la_norm_le_iff res by simp
    then have "t + 3/5 = 0" by (auto simp: mult_le_0_iff)
    then have "t = - (3/5)" by linarith
    with q show ?thesis by simp
  qed
  from least norm show ?thesis by (simp add: lstsq_solves_def)
qed

lemma exn_body0:
  "gn_body lstsq_col exn_f exn_df exn_r exn_J (1/1000) (1/2) 10 (gn_init [1] (1/1000)) =
     \<lparr>gn_x = [2/5], gn_alpha = 1, gn_ng = 66/125, gn_F = [116/625], gn_G = [66/125], gn_k = 1\<rparr>"
proof -
  have p: "gn_dir lstsq_col exn_r exn_J (gn_init [1] (1/1000)) = [- (3/5)]"
    by (simp add: gn_dir_def gn_init_def vneg_def dot_def smul_def exn_defs)
  have ls: "line_search_wolfe (gn_x (gn_init [1] (1/1000))) (gn_alpha (gn_init [1] (1/1000))) [- (3/5)]
              exn_f exn_df (1/1000) (1/2) 10 = (1, 0, False)"
    by (simp add: gn_init_def ls_eval exn_defs)
  show ?thesis
    unfolding gn_body_eq [OF p ls]
    by (simp add: gn_init_def la_norm_single vadd_def smul_def dot_def exn_defs)
qed

lemma exn_states:
  "gn_states lstsq_col [1] exn_f exn_df exn_r exn_J 1 (1/1000) (1/1000) (1/2) 10 =
     [gn_init [1] (1/1000),
      \<lparr>gn_x = [2/5], gn_alpha = 1, gn_ng = 66/125, gn_F = [116/625], gn_G = [66/125], gn_k = 1\<rparr>]"
proof -
  have g0: "gn_guard 1 (1/1000) (gn_init [1] (1/1000))"
    by (simp add: gn_guard_def gn_init_def)
  have g1: "\<not> gn_guard 1 (1/1000)
      \<lparr>gn_x = [2/5], gn_alpha = 1, gn_ng = 66/125, gn_F = [116/625], gn_G = [66/125], gn_k = 1\<rparr>"
    by (simp add: gn_guard_def)
  show ?thesis
    unfolding gn_states_def gn_trace_cons [OF g0 exn_body0] gn_trace_stop [OF g1] ..
qed

lemma exw_solved_at_half: "lstsq_solves [[0]] [- (7/4)] [0]"
proof -
  have res: "vsub [- (7/4)] (mat_vec [[0]] [t]) = [- (7/4)]" for t :: real
    by (simp add: vsub_def mat_vec_def dot_def)
  have least: "la_norm (vsub [- (7/4)] (mat_vec [[0]] [0]))
      \<le> la_norm (vsub [- (7/4)] (mat_vec [[0]] q))" if "length q = 1" for q
  proof -
    from that obtain t where q: "q = [t]" by (cases q) simp_all
    show ?thesis unfolding q res by simp
  qed
  have norm: "la_norm [0] \<le> la_norm q" for q
  proof -
    have "0 \<le> la_norm q" by (simp add: la_norm_def dot_self_nonneg)
    then show ?thesis by (simp add: la_norm_single)
  qed
  from least norm show ?thesis by (simp add: lstsq_solves_def)
qed

lemma exw_body_from_half:
  "gn_body lstsq_col exw_f exw_df exw_r exw_J (1/1000) (1/2) 1 (gn_init [1/2] (1/1000)) =
     \<lparr>gn_x = [1/2], gn_alpha = 1, gn_ng = 0, gn_F = [49/16], gn_G = [0], gn_k = 1\<rparr>"
proof -
  have p: "gn_dir lstsq_col exw_r exw_J (gn_init [1/2] (1/1000)) = [0]"
    by (simp add: gn_dir_def gn_init_def vneg_def dot_def exw_defs)
  have ls: "line_search_wolfe (gn_x (gn_init [1/2] (1/1000))) (gn_alpha (gn_init [1/2] (1/1000))) [0]
              exw_f exw_df (1/1000) (1/2) 1 = (1, 1, False)"
    by (simp add: gn_init_def ls_eval exw_defs)
  show ?thesis
    unfolding gn_body_eq [OF p ls]
    by (simp add: gn_init_def la_norm_single vadd_def smul_def dot_def exw_defs)
qed

lemma exw_states_from_half:
  "gn_states lstsq_col [1/2] exw_f exw_df exw_r exw_J 1 (1/1000) (1/1000) (1/2) 1 =
     [gn_init [1/2] (1/1000),
      \<lparr>gn_x = [1/2], gn_alpha = 1, gn_ng = 0, gn_F = [49/16], gn_G = [0], gn_k = 1\<rparr>]"
proof -
  have g0: "gn_guard 1 (1/1000) (gn_init [1/2] (1/1000))"
    by (simp add: gn_guard_def gn_init_def)
  have g1: "\<not> gn_guard 1 (1/1000)
      \<lparr>gn_x = [1/2], gn_alpha = 1, gn_ng = 0, gn_F = [49/16], gn_G = [0], gn_k = 1\<rparr>"
    by (simp add: gn_guard_def)
  show ?thesis
    unfolding gn_states_def gn_trace_cons [OF g0 exw_body_from_half] gn_trace_stop [OF g1] ..
qed

section \<open>Claims about the line search\<close>

text \<open>
  C1, as amended. For a call that returns \<open>(alpha, i, chk)\<close>: \<open>chk\<close> is true exactly
  when, at the returned step, \<open>f(z)\<close> is strictly above \<open>W1\<close> or \<open>h(z)\<close> is strictly
  below \<open>W2\<close>, the two bounds the loop tests against; and \<open>chk\<close> is true only when the
  search gave up with \<open>i = m\<close>. The flag reports a remaining violation, not success.
\<close>

theorem C1_chk_is_strict_violation:
  assumes "line_search_wolfe x a p f g c1 c2 m = (alpha, i, chk)"
  shows "(chk \<longleftrightarrow>
            (f (vadd x (smul alpha p)) > ls_W1 x a p f g c1 \<or>
             dot (g (vadd x (smul alpha p))) p < ls_W2 x p g c2)) \<and>
         (chk \<longrightarrow> i = m)"
proof -
  let ?S = "ls_states x a p f g c1 c2 m"
  let ?s = "last ?S"
  from assms have alpha: "alpha = ls_alpha ?s" and i: "i = ls_i ?s"
    and chk: "chk = (ls_fz ?s > ls_W1 x a p f g c1 \<or> ls_hz ?s < ls_W2 x p g c2)"
    by (simp_all add: line_search_wolfe_last)
  have "ls_coupled x p f g ?s"
    by (rule ls_states_coupled) (rule ls_states_last_mem)
  then have fz: "ls_fz ?s = f (vadd x (smul alpha p))"
    and hz: "ls_hz ?s = dot (g (vadd x (smul alpha p))) p"
    by (simp_all add: ls_coupled_def alpha)
  have le: "i \<le> m"
    unfolding i by (rule ls_states_counter_le) (rule ls_states_last_mem)
  have exit: "\<not> ls_guard (ls_W1 x a p f g c1) (ls_W2 x p g c2) m ?s"
    by (rule ls_states_last_exit)
  have "i = m" if chk
  proof -
    from that chk have "ls_fz ?s \<ge> ls_W1 x a p f g c1 \<or> ls_hz ?s \<le> ls_W2 x p g c2" by auto
    with exit have "\<not> i < m" by (simp add: ls_guard_def i)
    with le show ?thesis by simp
  qed
  with chk fz hz show ?thesis by simp
qed

theorem C1_chk_is_strict_violation_witness:
  "line_search_wolfe [0] 4 [1] ex_f ex_g (1/4) (1/2) 3 = (1/2, 3, True) \<and>
   (ex_f (vadd [0] (smul (1/2) [1])) > ls_W1 [0] 4 [1] ex_f ex_g (1/4) \<or>
    dot (ex_g (vadd [0] (smul (1/2) [1]))) [1] < ls_W2 [0] [1] ex_g (1/2))"
proof -
  have call: "line_search_wolfe [0] 4 [1] ex_f ex_g (1/4) (1/2) 3 = (1/2, 3, True)"
    by (simp add: ls_eval ex_f_def ex_g_def)
  from C1_chk_is_strict_violation [OF call] call show ?thesis by simp
qed

text \<open>
  C1 as stated fails: on \<open>f(x) = |x - 1|\<^sup>2\<close> from \<open>x = 0\<close> along \<open>p = 1\<close> with
  \<open>a = 1\<close> the first trial point is the minimiser, both Wolfe conditions hold there and
  the loop is never entered, yet the flag returned is false.
\<close>

theorem C1_chk_counterexample:
  "line_search_wolfe [0] 1 [1] ex_f ex_g (1/4) (1/2) 10 = (1, 0, False) \<and>
   wolfe_satisfied [0] [1] ex_f ex_g (1/4) (1/2) 1"
  by (simp add: ls_eval wolfe_satisfied_def ex_f_def ex_g_def)

text \<open>
  C3. The claim asks that the Armijo bound of the tests follow the current \<open>alpha\<close>. The
  code assigns \<open>W1\<close> once, from the argument \<open>a\<close>, and never again. On
  \<open>f(x) = |x - 1|\<^sup>2\<close> from \<open>x = 0\<close> along \<open>p = 1\<close> with \<open>a = 4\<close>, \<open>c1 = 1/4\<close>,
  \<open>c2 = 1/2\<close>, \<open>m = 3\<close>: the third state has \<open>alpha = 1\<close>, the minimiser, where
  \<open>f(z) = 0\<close> is below the Armijo bound \<open>1/2\<close> for \<open>alpha = 1\<close> and both Wolfe conditions
  hold; the guard compares with \<open>W1 = -1\<close>, so the loop goes on, halves \<open>alpha\<close> again
  and returns \<open>(1/2, 3, True)\<close>.
\<close>

theorem C3_armijo_bound_is_stale:
  "ls_alpha (ls_states [0] 4 [1] ex_f ex_g (1/4) (1/2) 3 ! 2) = 1 \<and>
   ls_fz (ls_states [0] 4 [1] ex_f ex_g (1/4) (1/2) 3 ! 2) = 0 \<and>
   ex_f [0] + ls_alpha (ls_states [0] 4 [1] ex_f ex_g (1/4) (1/2) 3 ! 2) * (1/4) * dot (ex_g [0]) [1]
     = 1/2 \<and>
   ls_W1 [0] 4 [1] ex_f ex_g (1/4) = - 1 \<and>
   ls_W2 [0] [1] ex_g (1/2) = - 1 \<and>
   wolfe_satisfied [0] [1] ex_f ex_g (1/4) (1/2) 1 \<and>
   ls_guard (ls_W1 [0] 4 [1] ex_f ex_g (1/4)) (ls_W2 [0] [1] ex_g (1/2)) 3
     (ls_states [0] 4 [1] ex_f ex_g (1/4) (1/2) 3 ! 2) \<and>
   line_search_wolfe [0] 4 [1] ex_f ex_g (1/4) (1/2) 3 = (1/2, 3, True)"
  by (simp add: ls_eval wolfe_satisfied_def ex_f_def ex_g_def)

text \<open>
  C4. The doubling statement executes only in a state whose \<open>alpha_max\<close> is plus
  infinity, and there it doubles \<open>alpha\<close>. Once \<open>alpha_max\<close> is finite in some state of
  the call it is finite in every later state, no later pass of the body takes the
  doubling branch, and each later pass either leaves the bracket and \<open>alpha\<close> as they are
  or sets \<open>alpha\<close> to the midpoint of the new bracket.
\<close>

theorem C4_doubling_only_while_unbounded:
  "(\<forall>j. Suc j < length (ls_states x a p f g c1 c2 m) \<and>
        ls_doubles (ls_W1 x a p f g c1) (ls_W2 x p g c2) (ls_states x a p f g c1 c2 m ! j) \<longrightarrow>
        ls_alpha_max (ls_states x a p f g c1 c2 m ! j) = PInf \<and>
        ls_alpha (ls_states x a p f g c1 c2 m ! Suc j) =
          2 * ls_alpha (ls_states x a p f g c1 c2 m ! j)) \<and>
   (\<forall>j k. j \<le> k \<and> Suc k < length (ls_states x a p f g c1 c2 m) \<and>
        ls_alpha_max (ls_states x a p f g c1 c2 m ! j) \<noteq> PInf \<longrightarrow>
        ls_alpha_max (ls_states x a p f g c1 c2 m ! k) \<noteq> PInf \<and>
        ls_alpha_max (ls_states x a p f g c1 c2 m ! Suc k) \<noteq> PInf \<and>
        \<not> ls_doubles (ls_W1 x a p f g c1) (ls_W2 x p g c2) (ls_states x a p f g c1 c2 m ! k) \<and>
        (ls_update (ls_W1 x a p f g c1) (ls_W2 x p g c2) (ls_states x a p f g c1 c2 m ! k) =
           ls_states x a p f g c1 c2 m ! k \<or>
         ls_midpoint (ls_states x a p f g c1 c2 m ! Suc k)))"
proof -
  let ?S = "ls_states x a p f g c1 c2 m"
  let ?W1 = "ls_W1 x a p f g c1"
  let ?W2 = "ls_W2 x p g c2"
  have dbl: "ls_alpha_max (?S ! j) = PInf \<and> ls_alpha (?S ! Suc j) = 2 * ls_alpha (?S ! j)"
    if "Suc j < length ?S" and "ls_doubles ?W1 ?W2 (?S ! j)" for j
    using ls_states_step [OF that(1)] ls_doubles_inf [OF that(2)] ls_doubles_update [OF that(2)]
    by (simp add: ls_body_fields)
  have fin: "ls_alpha_max (?S ! k) \<noteq> PInf \<and> ls_alpha_max (?S ! Suc k) \<noteq> PInf \<and>
             \<not> ls_doubles ?W1 ?W2 (?S ! k) \<and>
             (ls_update ?W1 ?W2 (?S ! k) = ?S ! k \<or> ls_midpoint (?S ! Suc k))"
    if "j \<le> k" and "Suc k < length ?S" and "ls_alpha_max (?S ! j) \<noteq> PInf" for j k
  proof -
    from that have k: "ls_alpha_max (?S ! k) \<noteq> PInf"
      using ls_states_stay_finite [OF that(3), of k] by simp
    then have nd: "\<not> ls_doubles ?W1 ?W2 (?S ! k)"
      using ls_doubles_inf by blast
    from ls_states_step [OF that(2)] ls_update_finite [OF k, of ?W1 ?W2]
    have "ls_alpha_max (?S ! Suc k) \<noteq> PInf \<and>
          (ls_update ?W1 ?W2 (?S ! k) = ?S ! k \<or> ls_midpoint (?S ! Suc k))"
      by (simp add: ls_body_fields ls_midpoint_body)
    with k nd show ?thesis by simp
  qed
  from dbl fin show ?thesis by blast
qed

theorem C4_doubling_only_while_unbounded_witness:
  "map ls_alpha (ls_states [0] (6/5) [1] ex4_f ex4_g (1/100) (1/10) 10) = [6/5, 3/5, 9/10] \<and>
   map ls_alpha_max (ls_states [0] (6/5) [1] ex4_f ex4_g (1/100) (1/10) 10) = [PInf, Fin (6/5), Fin (6/5)] \<and>
   \<not> ls_doubles (ls_W1 [0] (6/5) [1] ex4_f ex4_g (1/100)) (ls_W2 [0] [1] ex4_g (1/10))
       (ls_states [0] (6/5) [1] ex4_f ex4_g (1/100) (1/10) 10 ! 1) \<and>
   ls_midpoint (ls_states [0] (6/5) [1] ex4_f ex4_g (1/100) (1/10) 10 ! 2) \<and>
   map ls_alpha (ls_states [0] (1/8) [1] ex_f ex_g (1/4) (1/2) 5) = [1/8, 1/4, 1/2, 1/2, 1/2, 1/2] \<and>
   ls_doubles (ls_W1 [0] (1/8) [1] ex_f ex_g (1/4)) (ls_W2 [0] [1] ex_g (1/2))
       (ls_states [0] (1/8) [1] ex_f ex_g (1/4) (1/2) 5 ! 0) \<and>
   ls_alpha_max (ls_states [0] (1/8) [1] ex_f ex_g (1/4) (1/2) 5 ! 0) = PInf"
proof -
  let ?S = "ls_states [0] (6/5) [1] ex4_f ex4_g (1/100) (1/10) 10"
  let ?T = "ls_states [0] (1/8) [1] ex_f ex_g (1/4) (1/2) 5"
  have vals:
    "map ls_alpha ?S = [6/5, 3/5, 9/10] \<and> map ls_alpha_max ?S = [PInf, Fin (6/5), Fin (6/5)]"
    by (simp add: ls_eval ex4_f_def ex4_g_def)
  have len: "Suc 1 < length ?S" and fin: "ls_alpha_max (?S ! 1) \<noteq> PInf"
    and upd: "ls_update (ls_W1 [0] (6/5) [1] ex4_f ex4_g (1/100)) (ls_W2 [0] [1] ex4_g (1/10)) (?S ! 1)
                \<noteq> ?S ! 1"
    by (simp_all add: ls_eval ex4_f_def ex4_g_def)
  have valt: "map ls_alpha ?T = [1/8, 1/4, 1/2, 1/2, 1/2, 1/2]"
    and lent: "Suc 0 < length ?T"
    and dblt: "ls_doubles (ls_W1 [0] (1/8) [1] ex_f ex_g (1/4)) (ls_W2 [0] [1] ex_g (1/2)) (?T ! 0)"
    by (simp_all add: ls_eval ls_doubles_def ex_f_def ex_g_def)
  from C4_doubling_only_while_unbounded [of "[0]" "6/5" "[1]" ex4_f ex4_g "1/100" "1/10" 10]
  have "(1::nat) \<le> 1 \<and> Suc 1 < length ?S \<and> ls_alpha_max (?S ! 1) \<noteq> PInf \<longrightarrow>
        ls_alpha_max (?S ! 1) \<noteq> PInf \<and> ls_alpha_max (?S ! Suc 1) \<noteq> PInf \<and>
        \<not> ls_doubles (ls_W1 [0] (6/5) [1] ex4_f ex4_g (1/100)) (ls_W2 [0] [1] ex4_g (1/10)) (?S ! 1) \<and>
        (ls_update (ls_W1 [0] (6/5) [1] ex4_f ex4_g (1/100)) (ls_W2 [0] [1] ex4_g (1/10)) (?S ! 1) = ?S ! 1 \<or>
         ls_midpoint (?S ! Suc 1))"
    by blast
  with len fin upd have one:
    "\<not> ls_doubles (ls_W1 [0] (6/5) [1] ex4_f ex4_g (1/100)) (ls_W2 [0] [1] ex4_g (1/10)) (?S ! 1) \<and>
     ls_midpoint (?S ! 2)"
    by (simp add: numeral_2_eq_2)
  from C4_doubling_only_while_unbounded [of "[0]" "1/8" "[1]" ex_f ex_g "1/4" "1/2" 5] lent dblt
  have two: "ls_alpha_max (?T ! 0) = PInf" by blast
  from vals one valt dblt two show ?thesis by simp
qed

text \<open>
  C5. With an initial step guess \<open>a > 0\<close>: at every state of the bracketing loop
  \<open>alpha_min \<le> alpha \<le> alpha_max\<close>; \<open>alpha_min\<close> starts at 0 and \<open>alpha_max\<close> at plus
  infinity; over each pass of the body \<open>alpha_min\<close> does not decrease and \<open>alpha_max\<close>
  does not increase; and the returned step length is strictly positive.
\<close>

theorem C5_bracket_invariant:
  assumes "0 < a"
  shows "(\<forall>t \<in> set (ls_states x a p f g c1 c2 m).
            ls_alpha_min t \<le> ls_alpha t \<and> le_x (ls_alpha t) (ls_alpha_max t)) \<and>
         ls_alpha_min (ls_states x a p f g c1 c2 m ! 0) = 0 \<and>
         ls_alpha_max (ls_states x a p f g c1 c2 m ! 0) = PInf \<and>
         (\<forall>j. Suc j < length (ls_states x a p f g c1 c2 m) \<longrightarrow>
            ls_alpha_min (ls_states x a p f g c1 c2 m ! j)
              \<le> ls_alpha_min (ls_states x a p f g c1 c2 m ! Suc j) \<and>
            x_le (ls_alpha_max (ls_states x a p f g c1 c2 m ! Suc j))
                 (ls_alpha_max (ls_states x a p f g c1 c2 m ! j))) \<and>
         0 < fst (line_search_wolfe x a p f g c1 c2 m)"
proof -
  let ?S = "ls_states x a p f g c1 c2 m"
  have br: "ls_bracket t" if "t \<in> set ?S" for t
    using assms that by (rule ls_states_bracket)
  have inv: "\<forall>t \<in> set ?S. ls_alpha_min t \<le> ls_alpha t \<and> le_x (ls_alpha t) (ls_alpha_max t)"
    using br by (simp add: ls_bracket_def)
  have start: "ls_alpha_min (?S ! 0) = 0 \<and> ls_alpha_max (?S ! 0) = PInf"
    by (simp add: ls_states_nth0 ls_init_def Let_def)
  have mono: "ls_alpha_min (?S ! j) \<le> ls_alpha_min (?S ! Suc j) \<and>
              x_le (ls_alpha_max (?S ! Suc j)) (ls_alpha_max (?S ! j))"
    if "Suc j < length ?S" for j
  proof -
    from that have "?S ! j \<in> set ?S" by simp
    then have "ls_bracket (?S ! j)" by (rule br)
    from ls_update_monotone [OF this] ls_states_step [OF that]
    show ?thesis by (simp add: ls_body_fields)
  qed
  have "ls_bracket (last ?S)"
    by (rule br) (rule ls_states_last_mem)
  then have pos: "0 < fst (line_search_wolfe x a p f g c1 c2 m)"
    by (simp add: line_search_wolfe_last ls_bracket_def)
  from inv start mono pos show ?thesis by blast
qed

theorem C5_bracket_invariant_witness:
  "(0::real) < 6/5 \<and>
   map ls_alpha_min (ls_states [0] (6/5) [1] ex4_f ex4_g (1/100) (1/10) 10) = [0, 0, 3/5] \<and>
   map ls_alpha (ls_states [0] (6/5) [1] ex4_f ex4_g (1/100) (1/10) 10) = [6/5, 3/5, 9/10] \<and>
   map ls_alpha_max (ls_states [0] (6/5) [1] ex4_f ex4_g (1/100) (1/10) 10) = [PInf, Fin (6/5), Fin (6/5)] \<and>
   ls_alpha_min (ls_states [0] (6/5) [1] ex4_f ex4_g (1/100) (1/10) 10 ! 1)
     \<le> ls_alpha_min (ls_states [0] (6/5) [1] ex4_f ex4_g (1/100) (1/10) 10 ! 2) \<and>
   0 < fst (line_search_wolfe [0] (6/5) [1] ex4_f ex4_g (1/100) (1/10) 10)"
proof -
  have pos: "(0::real) < 6/5" by simp
  have len: "Suc 1 < length (ls_states [0] (6/5) [1] ex4_f ex4_g (1/100) (1/10) 10)"
    by (simp add: ls_eval ex4_f_def ex4_g_def)
  have vals:
    "map ls_alpha_min (ls_states [0] (6/5) [1] ex4_f ex4_g (1/100) (1/10) 10) = [0, 0, 3/5] \<and>
     map ls_alpha (ls_states [0] (6/5) [1] ex4_f ex4_g (1/100) (1/10) 10) = [6/5, 3/5, 9/10] \<and>
     map ls_alpha_max (ls_states [0] (6/5) [1] ex4_f ex4_g (1/100) (1/10) 10) = [PInf, Fin (6/5), Fin (6/5)]"
    by (simp add: ls_eval ex4_f_def ex4_g_def)
  from C5_bracket_invariant [OF pos, of "[0]" "[1]" ex4_f ex4_g "1/100" "1/10" 10] len
  have "ls_alpha_min (ls_states [0] (6/5) [1] ex4_f ex4_g (1/100) (1/10) 10 ! 1)
          \<le> ls_alpha_min (ls_states [0] (6/5) [1] ex4_f ex4_g (1/100) (1/10) 10 ! 2) \<and>
        0 < fst (line_search_wolfe [0] (6/5) [1] ex4_f ex4_g (1/100) (1/10) 10)"
    by (simp add: numeral_2_eq_2)
  with pos vals show ?thesis by simp
qed

text \<open>
  C10. Take a state of the call in which neither strict test is violated
  (\<open>f(z) \<le> W1\<close> and \<open>h(z) \<ge> W2\<close>) while an equality holds (\<open>f(z) = W1\<close> or
  \<open>h(z) = W2\<close>). There the update changes nothing; every later state is that state but
  for the counter, so the same trial point is evaluated again on every pass; the loop
  runs until the counter reaches \<open>m\<close>; and the call returns that \<open>alpha\<close> with \<open>i = m\<close>
  and \<open>chk\<close> false.
\<close>

theorem C10_equality_runs_to_cap:
  assumes "j < length (ls_states x a p f g c1 c2 m)"
    and "ls_fz (ls_states x a p f g c1 c2 m ! j) \<le> ls_W1 x a p f g c1"
    and "ls_hz (ls_states x a p f g c1 c2 m ! j) \<ge> ls_W2 x p g c2"
    and "ls_fz (ls_states x a p f g c1 c2 m ! j) = ls_W1 x a p f g c1 \<or>
         ls_hz (ls_states x a p f g c1 c2 m ! j) = ls_W2 x p g c2"
  shows "ls_update (ls_W1 x a p f g c1) (ls_W2 x p g c2) (ls_states x a p f g c1 c2 m ! j) =
           ls_states x a p f g c1 c2 m ! j \<and>
         (\<forall>k. j \<le> k \<and> k < length (ls_states x a p f g c1 c2 m) \<longrightarrow>
            ls_states x a p f g c1 c2 m ! k = (ls_states x a p f g c1 c2 m ! j)\<lparr>ls_i := k\<rparr>) \<and>
         length (ls_states x a p f g c1 c2 m) = Suc m \<and>
         line_search_wolfe x a p f g c1 c2 m = (ls_alpha (ls_states x a p f g c1 c2 m ! j), m, False)"
proof -
  let ?S = "ls_states x a p f g c1 c2 m"
  let ?W1 = "ls_W1 x a p f g c1"
  let ?W2 = "ls_W2 x p g c2"
  let ?n = "length ?S - 1"
  have upd: "ls_update ?W1 ?W2 (?S ! j) = ?S ! j"
    using assms(2,3) by (rule ls_update_stay)
  have stuck: "?S ! k = (?S ! j)\<lparr>ls_i := k\<rparr>" if "j \<le> k" and "k < length ?S" for k
    using assms(1,2,3) that by (rule ls_states_stuck)
  from assms(1) have n: "j \<le> ?n" "?n < length ?S" by simp_all
  then have last: "last ?S = (?S ! j)\<lparr>ls_i := ?n\<rparr>"
    using stuck [of ?n] by (simp add: ls_states_last_nth)
  have "\<not> ls_guard ?W1 ?W2 m (last ?S)"
    by (rule ls_states_last_exit)
  with last assms(4) have "\<not> ?n < m"
    by (auto simp: ls_guard_def)
  moreover have "ls_i (last ?S) \<le> m"
    by (rule ls_states_counter_le) (rule ls_states_last_mem)
  with last have "?n \<le> m" by simp
  ultimately have "?n = m" by simp
  with n have len: "length ?S = Suc m" by simp
  from last \<open>?n = m\<close> assms(2,3)
  have "line_search_wolfe x a p f g c1 c2 m = (ls_alpha (?S ! j), m, False)"
    by (simp add: line_search_wolfe_last)
  with upd stuck len show ?thesis by blast
qed

theorem C10_equality_runs_to_cap_witness:
  "ls_states [0] (1/8) [1] ex_f ex_g (1/4) (1/2) 5 ! 2 =
     \<lparr>ls_alpha_min = 0, ls_alpha = 1/2, ls_alpha_max = PInf, ls_z = [1/2],
      ls_fz = 1/4, ls_hz = - 1, ls_i = 2\<rparr> \<and>
   ls_W1 [0] (1/8) [1] ex_f ex_g (1/4) = 15/16 \<and>
   ls_W2 [0] [1] ex_g (1/2) = - 1 \<and>
   length (ls_states [0] (1/8) [1] ex_f ex_g (1/4) (1/2) 5) = 6 \<and>
   ls_states [0] (1/8) [1] ex_f ex_g (1/4) (1/2) 5 ! 4 =
     (ls_states [0] (1/8) [1] ex_f ex_g (1/4) (1/2) 5 ! 2)\<lparr>ls_i := 4\<rparr> \<and>
   line_search_wolfe [0] (1/8) [1] ex_f ex_g (1/4) (1/2) 5 = (1/2, 5, False)"
proof -
  let ?S = "ls_states [0] (1/8) [1] ex_f ex_g (1/4) (1/2) 5"
  have st: "?S ! 2 = \<lparr>ls_alpha_min = 0, ls_alpha = 1/2, ls_alpha_max = PInf, ls_z = [1/2],
      ls_fz = 1/4, ls_hz = - 1, ls_i = 2\<rparr>"
    and W1: "ls_W1 [0] (1/8) [1] ex_f ex_g (1/4) = 15/16"
    and W2: "ls_W2 [0] [1] ex_g (1/2) = - 1"
    by (simp_all add: ls_eval ex_f_def ex_g_def)
  have j: "2 < length ?S"
    by (simp add: ls_eval ex_f_def ex_g_def)
  have fz: "ls_fz (?S ! 2) \<le> ls_W1 [0] (1/8) [1] ex_f ex_g (1/4)"
    and hz: "ls_hz (?S ! 2) \<ge> ls_W2 [0] [1] ex_g (1/2)"
    and eq: "ls_fz (?S ! 2) = ls_W1 [0] (1/8) [1] ex_f ex_g (1/4) \<or>
             ls_hz (?S ! 2) = ls_W2 [0] [1] ex_g (1/2)"
    unfolding st W1 W2 by simp_all
  note run = C10_equality_runs_to_cap [OF j fz hz eq]
  from run [THEN conjunct2, THEN conjunct2, THEN conjunct1]
  have len: "length ?S = 6" by simp
  from run [THEN conjunct2, THEN conjunct1, rule_format, of 4] len
  have k: "?S ! 4 = (?S ! 2)\<lparr>ls_i := 4\<rparr>" by simp
  from run [THEN conjunct2, THEN conjunct2, THEN conjunct2]
  have "line_search_wolfe [0] (1/8) [1] ex_f ex_g (1/4) (1/2) 5 = (1/2, 5, False)"
    unfolding st by simp
  with st W1 W2 len k show ?thesis by simp
qed

section \<open>Claims about Gauss-Newton\<close>

text \<open>
  C2. For a call that returns \<open>[x, F, G, k]\<close>: \<open>k \<le> N\<close>; the call passes through
  exactly \<open>k + 1\<close> states, each but the first produced from the one before by one pass
  of the body, whose counter is its position, so \<open>k\<close> is the number of passes executed;
  after each pass \<open>ng\<close> is the gradient norm at the new point; a pass after which
  that norm is at most \<open>err\<close> is the last one; and the loop ends only with \<open>k = N\<close> or
  \<open>ng \<le> err\<close>.
\<close>

theorem C2_iteration_count:
  assumes "gauss_newton lstsq x f df r J N err c1 c2 lsi = (x', F, G, k)"
  shows "k \<le> N \<and>
         length (gn_states lstsq x f df r J N err c1 c2 lsi) = Suc k \<and>
         x' = gn_x (gn_states lstsq x f df r J N err c1 c2 lsi ! k) \<and>
         (\<forall>j. j < k \<longrightarrow>
            gn_k (gn_states lstsq x f df r J N err c1 c2 lsi ! j) = j \<and>
            gn_states lstsq x f df r J N err c1 c2 lsi ! Suc j =
              gn_body lstsq f df r J c1 c2 lsi (gn_states lstsq x f df r J N err c1 c2 lsi ! j)) \<and>
         (\<forall>j. 0 < j \<and> j \<le> k \<longrightarrow>
            gn_ng (gn_states lstsq x f df r J N err c1 c2 lsi ! j) =
              la_norm (df (gn_x (gn_states lstsq x f df r J N err c1 c2 lsi ! j)))) \<and>
         (\<forall>j. 0 < j \<and> j \<le> k \<and>
              la_norm (df (gn_x (gn_states lstsq x f df r J N err c1 c2 lsi ! j))) \<le> err \<longrightarrow>
            j = k) \<and>
         (k = N \<or> gn_ng (gn_states lstsq x f df r J N err c1 c2 lsi ! k) \<le> err)"
proof -
  let ?T = "gn_states lstsq x f df r J N err c1 c2 lsi"
  from gauss_newton_count [OF assms]
  have len: "length ?T = Suc k" and x': "x' = gn_x (?T ! k)" by simp_all
  from len gn_states_length [of lstsq x f df r J N err c1 c2 lsi] have kN: "k \<le> N" by simp
  have pass: "gn_k (?T ! j) = j \<and> ?T ! Suc j = gn_body lstsq f df r J c1 c2 lsi (?T ! j)"
    if "j < k" for j
  proof -
    from that len have "Suc j < length ?T" by simp
    from gn_states_step [OF this] gn_states_counter [of j lstsq x f df r J N err c1 c2 lsi] this
    show ?thesis by simp
  qed
  have ng: "gn_ng (?T ! j) = la_norm (df (gn_x (?T ! j)))" if "0 < j" and "j \<le> k" for j
  proof -
    from that obtain i where j: "j = Suc i" and "i < k" by (cases j) simp_all
    from pass [OF this(2)] show ?thesis by (simp add: j gn_body_fields)
  qed
  have stop: "j = k" if "0 < j" and "j \<le> k" and "la_norm (df (gn_x (?T ! j))) \<le> err" for j
  proof (rule ccontr)
    assume "j \<noteq> k"
    with that(2) len have "Suc j < length ?T" by simp
    from gn_states_step [OF this] have "gn_ng (?T ! j) > err" by (simp add: gn_guard_def)
    with ng [OF that(1,2)] that(3) show False by simp
  qed
  have exit: "k = N \<or> gn_ng (?T ! k) \<le> err"
  proof -
    from len have last: "last ?T = ?T ! k"
      by (simp add: gn_states_last_nth)
    have "gn_k (?T ! k) = k"
      using gn_states_counter [of k lstsq x f df r J N err c1 c2 lsi] len by simp
    with last gn_states_last_exit [of N err lstsq x f df r J c1 c2 lsi] kN
    show ?thesis by (auto simp: gn_guard_def)
  qed
  from kN len x' pass ng stop exit show ?thesis by blast
qed

theorem C2_iteration_count_witness:
  "gauss_newton lstsq_col [1] exq_f exq_df exq_r exq_J 20 (1/1000) (1/1000) (1/2) 10 =
     ([0], [0], [0], 1) \<and>
   (1::nat) \<le> 20 \<and>
   length (gn_states lstsq_col [1] exq_f exq_df exq_r exq_J 20 (1/1000) (1/1000) (1/2) 10) = 2 \<and>
   gn_ng (gn_states lstsq_col [1] exq_f exq_df exq_r exq_J 20 (1/1000) (1/1000) (1/2) 10 ! 1) =
     la_norm (exq_df [0]) \<and>
   la_norm (exq_df [0]) \<le> 1/1000"
proof -
  let ?T = "gn_states lstsq_col [1] exq_f exq_df exq_r exq_J 20 (1/1000) (1/1000) (1/2) 10"
  have call: "gauss_newton lstsq_col [1] exq_f exq_df exq_r exq_J 20 (1/1000) (1/1000) (1/2) 10 =
     ([0], [0], [0], 1)"
    by (simp add: gauss_newton_last exq_states_from_1)
  note count = C2_iteration_count [OF call]
  from count [THEN conjunct1] have a: "(1::nat) \<le> 20" .
  from count [THEN conjunct2, THEN conjunct1] have b: "length ?T = 2" by simp
  from count [THEN conjunct2, THEN conjunct2, THEN conjunct2, THEN conjunct2, THEN conjunct1,
      rule_format, of 1]
  have c: "gn_ng (?T ! 1) = la_norm (exq_df (gn_x (?T ! 1)))" by simp
  have d: "gn_x (?T ! 1) = [0]" by (simp add: exq_states_from_1)
  have e: "la_norm (exq_df [0]) \<le> 1/1000"
    by (simp add: la_norm_single dot_def exq_defs)
  from call a b c d e show ?thesis by simp
qed

text \<open>
  C6. The step guess of the first pass is 1. Every pass calls the line search at the
  current point with the current \<open>alpha\<close> as its step guess, stores the step length the
  search returns as the new \<open>alpha\<close> (so the next pass starts its search from it), and
  moves to \<open>x + alpha p\<close> with that step length, whatever the flag of the search is.
\<close>

theorem C6_warm_start:
  "gn_alpha (gn_states lstsq x f df r J N err c1 c2 lsi ! 0) = 1 \<and>
   (\<forall>j. Suc j < length (gn_states lstsq x f df r J N err c1 c2 lsi) \<longrightarrow>
      gn_alpha (gn_states lstsq x f df r J N err c1 c2 lsi ! Suc j) =
        fst (line_search_wolfe
               (gn_x (gn_states lstsq x f df r J N err c1 c2 lsi ! j))
               (gn_alpha (gn_states lstsq x f df r J N err c1 c2 lsi ! j))
               (gn_dir lstsq r J (gn_states lstsq x f df r J N err c1 c2 lsi ! j))
               f df c1 c2 lsi) \<and>
      gn_x (gn_states lstsq x f df r J N err c1 c2 lsi ! Suc j) =
        vadd (gn_x (gn_states lstsq x f df r J N err c1 c2 lsi ! j))
             (smul (gn_alpha (gn_states lstsq x f df r J N err c1 c2 lsi ! Suc j))
                   (gn_dir lstsq r J (gn_states lstsq x f df r J N err c1 c2 lsi ! j))))"
proof -
  let ?T = "gn_states lstsq x f df r J N err c1 c2 lsi"
  have first: "gn_alpha (?T ! 0) = 1"
    by (simp add: gn_states_nth0 gn_init_def)
  have pass:
    "gn_alpha (?T ! Suc j) =
       fst (line_search_wolfe (gn_x (?T ! j)) (gn_alpha (?T ! j)) (gn_dir lstsq r J (?T ! j))
              f df c1 c2 lsi) \<and>
     gn_x (?T ! Suc j) =
       vadd (gn_x (?T ! j)) (smul (gn_alpha (?T ! Suc j)) (gn_dir lstsq r J (?T ! j)))"
    if "Suc j < length ?T" for j
    using gn_states_step [OF that] gn_body_fields(2,3) [of lstsq f df r J c1 c2 lsi "?T ! j"]
    by simp
  from first pass show ?thesis by blast
qed

theorem C6_warm_start_witness:
  "map gn_alpha (gn_states lstsq_col [1] exw_f exw_df exw_r exw_J 2 (1/1000) (1/1000) (1/2) 1) =
     [1, 1/2, 1/4] \<and>
   map gn_x (gn_states lstsq_col [1] exw_f exw_df exw_r exw_J 2 (1/1000) (1/1000) (1/2) 1) =
     [[1], [0], [1/2]] \<and>
   line_search_wolfe [1] 1 [- 2] exw_f exw_df (1/1000) (1/2) 1 = (1/2, 1, True) \<and>
   line_search_wolfe [0] (1/2) [2] exw_f exw_df (1/1000) (1/2) 1 = (1/4, 1, False) \<and>
   gn_alpha (gn_states lstsq_col [1] exw_f exw_df exw_r exw_J 2 (1/1000) (1/1000) (1/2) 1 ! 2) =
     fst (line_search_wolfe [0] (1/2) [2] exw_f exw_df (1/1000) (1/2) 1) \<and>
   gn_x (gn_states lstsq_col [1] exw_f exw_df exw_r exw_J 2 (1/1000) (1/1000) (1/2) 1 ! 1) =
     vadd [1] (smul (1/2) [- 2])"
proof -
  let ?T = "gn_states lstsq_col [1] exw_f exw_df exw_r exw_J 2 (1/1000) (1/1000) (1/2) 1"
  have vals: "map gn_alpha ?T = [1, 1/2, 1/4]" "map gn_x ?T = [[1], [0], [1/2]]"
    unfolding exw_states by (simp_all add: gn_init_def)
  have ls: "line_search_wolfe [1] 1 [- 2] exw_f exw_df (1/1000) (1/2) 1 = (1/2, 1, True)"
    "line_search_wolfe [0] (1/2) [2] exw_f exw_df (1/1000) (1/2) 1 = (1/4, 1, False)"
    by (simp_all add: ls_eval exw_defs)
  have dirs: "gn_dir lstsq_col exw_r exw_J (?T ! 0) = [- 2]" "gn_dir lstsq_col exw_r exw_J (?T ! 1) = [2]"
    unfolding exw_states by (simp_all add: gn_init_def gn_dir_def vneg_def dot_def exw_defs)
  have at: "gn_x (?T ! 0) = [1]" "gn_alpha (?T ! 0) = 1" "gn_x (?T ! 1) = [0]" "gn_alpha (?T ! 1) = 1/2"
    unfolding exw_states by (simp_all add: gn_init_def)
  have len: "Suc 0 < length ?T" "Suc 1 < length ?T"
    unfolding exw_states by simp_all
  have i1: "?T ! Suc 0 = ?T ! 1" and i2: "?T ! Suc 1 = ?T ! 2"
    by (simp_all add: numeral_2_eq_2)
  note warm = C6_warm_start [of lstsq_col "[1]" exw_f exw_df exw_r exw_J 2 "1/1000" "1/1000" "1/2" 1,
      THEN conjunct2, rule_format]
  from warm [OF len(2), THEN conjunct1]
  have a: "gn_alpha (?T ! 2) = fst (line_search_wolfe [0] (1/2) [2] exw_f exw_df (1/1000) (1/2) 1)"
    unfolding i2 dirs at .
  from warm [OF len(1), THEN conjunct2]
  have b: "gn_x (?T ! 1) = vadd [1] (smul (1/2) [- 2])"
    unfolding i1 dirs at .
  from vals ls a b show ?thesis by simp
qed

text \<open>
  C7. Every pass of the body appends one entry to each history: to \<open>G\<close> the gradient
  norm at the point just reached, to \<open>F\<close> the objective value there. A history in a
  later state starts with the history of every earlier state, so no entry is removed or
  changed. On return both histories have the length of the returned count \<open>k\<close>.
\<close>

theorem C7_histories:
  "(\<forall>j. Suc j < length (gn_states lstsq x f df r J N err c1 c2 lsi) \<longrightarrow>
      gn_G (gn_states lstsq x f df r J N err c1 c2 lsi ! Suc j) =
        gn_G (gn_states lstsq x f df r J N err c1 c2 lsi ! j) @
          [la_norm (df (gn_x (gn_states lstsq x f df r J N err c1 c2 lsi ! Suc j)))] \<and>
      gn_F (gn_states lstsq x f df r J N err c1 c2 lsi ! Suc j) =
        gn_F (gn_states lstsq x f df r J N err c1 c2 lsi ! j) @
          [f (gn_x (gn_states lstsq x f df r J N err c1 c2 lsi ! Suc j))]) \<and>
   (\<forall>j k. j \<le> k \<and> k < length (gn_states lstsq x f df r J N err c1 c2 lsi) \<longrightarrow>
      take j (gn_F (gn_states lstsq x f df r J N err c1 c2 lsi ! k)) =
        gn_F (gn_states lstsq x f df r J N err c1 c2 lsi ! j) \<and>
      take j (gn_G (gn_states lstsq x f df r J N err c1 c2 lsi ! k)) =
        gn_G (gn_states lstsq x f df r J N err c1 c2 lsi ! j)) \<and>
   (\<forall>x' F G k. gauss_newton lstsq x f df r J N err c1 c2 lsi = (x', F, G, k) \<longrightarrow>
      length F = k \<and> length G = k)"
proof -
  let ?T = "gn_states lstsq x f df r J N err c1 c2 lsi"
  have app: "gn_G (?T ! Suc j) = gn_G (?T ! j) @ [la_norm (df (gn_x (?T ! Suc j)))] \<and>
             gn_F (?T ! Suc j) = gn_F (?T ! j) @ [f (gn_x (?T ! Suc j))]"
    if "Suc j < length ?T" for j
    using gn_states_step [OF that] gn_body_fields(5,6) [of lstsq f df r J c1 c2 lsi "?T ! j"]
    by simp
  have kept: "take j (gn_F (?T ! k)) = gn_F (?T ! j) \<and> take j (gn_G (?T ! k)) = gn_G (?T ! j)"
    if "j \<le> k" and "k < length ?T" for j k
    using that by (rule gn_states_history_kept)
  have len: "length F = k \<and> length G = k"
    if "gauss_newton lstsq x f df r J N err c1 c2 lsi = (x', F, G, k)" for x' F G k
  proof -
    from gauss_newton_count [OF that]
    have "length ?T = Suc k" and F: "F = gn_F (?T ! k)" and G: "G = gn_G (?T ! k)" by simp_all
    then have "k < length ?T" by simp
    from gn_states_counter [OF this] F G show ?thesis by simp
  qed
  from app kept len show ?thesis by blast
qed

theorem C7_histories_witness:
  "gauss_newton lstsq_col [1] exw_f exw_df exw_r exw_J 2 (1/1000) (1/1000) (1/2) 1 =
     ([1/2], [4, 49/16], [2, 0], 2) \<and>
   length [4, 49/16 :: real] = 2 \<and> length [2, 0 :: real] = 2 \<and>
   map gn_F (gn_states lstsq_col [1] exw_f exw_df exw_r exw_J 2 (1/1000) (1/1000) (1/2) 1) =
     [[], [4], [4, 49/16]] \<and>
   map gn_G (gn_states lstsq_col [1] exw_f exw_df exw_r exw_J 2 (1/1000) (1/1000) (1/2) 1) =
     [[], [2], [2, 0]] \<and>
   gn_G (gn_states lstsq_col [1] exw_f exw_df exw_r exw_J 2 (1/1000) (1/1000) (1/2) 1 ! 2) =
     gn_G (gn_states lstsq_col [1] exw_f exw_df exw_r exw_J 2 (1/1000) (1/1000) (1/2) 1 ! 1) @
       [la_norm (exw_df [1/2])] \<and>
   take 1 (gn_F (gn_states lstsq_col [1] exw_f exw_df exw_r exw_J 2 (1/1000) (1/1000) (1/2) 1 ! 2)) =
     gn_F (gn_states lstsq_col [1] exw_f exw_df exw_r exw_J 2 (1/1000) (1/1000) (1/2) 1 ! 1)"
proof -
  let ?T = "gn_states lstsq_col [1] exw_f exw_df exw_r exw_J 2 (1/1000) (1/1000) (1/2) 1"
  note hist = C7_histories [of lstsq_col "[1]" exw_f exw_df exw_r exw_J 2 "1/1000" "1/1000" "1/2" 1]
  have call: "gauss_newton lstsq_col [1] exw_f exw_df exw_r exw_J 2 (1/1000) (1/1000) (1/2) 1 =
     ([1/2], [4, 49/16], [2, 0], 2)"
    unfolding gauss_newton_last exw_states by simp
  from hist [THEN conjunct2, THEN conjunct2, rule_format, OF call]
  have lens: "length [4, 49/16 :: real] = 2 \<and> length [2, 0 :: real] = 2" .
  have vals: "map gn_F ?T = [[], [4], [4, 49/16]]" "map gn_G ?T = [[], [2], [2, 0]]"
    unfolding exw_states by (simp_all add: gn_init_def)
  have len: "Suc 1 < length ?T" and le: "(1::nat) \<le> 2 \<and> 2 < length ?T" and x2: "gn_x (?T ! 2) = [1/2]"
    unfolding exw_states by simp_all
  have i2: "?T ! Suc 1 = ?T ! 2"
    by (simp add: numeral_2_eq_2)
  from hist [THEN conjunct1, rule_format, OF len, THEN conjunct1]
  have a: "gn_G (?T ! 2) = gn_G (?T ! 1) @ [la_norm (exw_df [1/2])]"
    unfolding i2 x2 .
  from hist [THEN conjunct2, THEN conjunct1, rule_format, OF le, THEN conjunct1]
  have b: "take 1 (gn_F (?T ! 2)) = gn_F (?T ! 1)" .
  from call lens vals a b show ?thesis by simp
qed

text \<open>
  C8. In every pass of the body the direction is what the solver returns for the call
  on \<open>Jx = J(x)\<close> and \<open>-rx = -r(x)\<close>, made directly on the Jacobian and the residual,
  and the pass moves along it. Whenever the solver's answer to that call is a
  least-squares solution of minimum norm, the direction minimises \<open>|Jx p + rx|\<close> and has
  the least norm among the minimisers, whatever the numbers of rows and columns of \<open>Jx\<close>
  and whatever its rank. Rounding is outside the model, so nothing is said of the
  numerical stability of the solve.
\<close>

theorem C8_direction_is_least_squares:
  assumes "Suc j < length (gn_states lstsq x f df r J N err c1 c2 lsi)"
    and "lstsq_solves
           (J (gn_x (gn_states lstsq x f df r J N err c1 c2 lsi ! j)))
           (vneg (r (gn_x (gn_states lstsq x f df r J N err c1 c2 lsi ! j))))
           (lstsq (J (gn_x (gn_states lstsq x f df r J N err c1 c2 lsi ! j)))
                  (vneg (r (gn_x (gn_states lstsq x f df r J N err c1 c2 lsi ! j)))))"
  shows "gn_dir lstsq r J (gn_states lstsq x f df r J N err c1 c2 lsi ! j) =
           lstsq (J (gn_x (gn_states lstsq x f df r J N err c1 c2 lsi ! j)))
                 (vneg (r (gn_x (gn_states lstsq x f df r J N err c1 c2 lsi ! j)))) \<and>
         gn_least_squares
           (J (gn_x (gn_states lstsq x f df r J N err c1 c2 lsi ! j)))
           (r (gn_x (gn_states lstsq x f df r J N err c1 c2 lsi ! j)))
           (gn_dir lstsq r J (gn_states lstsq x f df r J N err c1 c2 lsi ! j)) \<and>
         gn_x (gn_states lstsq x f df r J N err c1 c2 lsi ! Suc j) =
           vadd (gn_x (gn_states lstsq x f df r J N err c1 c2 lsi ! j))
                (smul (gn_alpha (gn_states lstsq x f df r J N err c1 c2 lsi ! Suc j))
                      (gn_dir lstsq r J (gn_states lstsq x f df r J N err c1 c2 lsi ! j)))"
proof -
  let ?T = "gn_states lstsq x f df r J N err c1 c2 lsi"
  have call: "gn_dir lstsq r J (?T ! j) = lstsq (J (gn_x (?T ! j))) (vneg (r (gn_x (?T ! j))))"
    by (rule gn_dir_call)
  from assms(2) have best: "gn_least_squares (J (gn_x (?T ! j))) (r (gn_x (?T ! j)))
      (gn_dir lstsq r J (?T ! j))"
    unfolding call lstsq_solves_least_squares .
  from gn_states_step [OF assms(1)] gn_body_fields(3) [of lstsq f df r J c1 c2 lsi "?T ! j"]
  have move: "gn_x (?T ! Suc j) =
      vadd (gn_x (?T ! j)) (smul (gn_alpha (?T ! Suc j)) (gn_dir lstsq r J (?T ! j)))"
    by simp
  from call best move show ?thesis by simp
qed

theorem C8_direction_is_least_squares_witness:
  "exn_J [1] = [[1], [2]] \<and> exn_r [1] = [1, 1] \<and>
   lstsq_solves [[1], [2]] [- 1, - 1] (lstsq_col [[1], [2]] [- 1, - 1]) \<and>
   gn_dir lstsq_col exn_r exn_J
     (gn_states lstsq_col [1] exn_f exn_df exn_r exn_J 1 (1/1000) (1/1000) (1/2) 10 ! 0) = [- (3/5)] \<and>
   gn_residual [[1], [2]] [1, 1] [- (3/5)] \<le> gn_residual [[1], [2]] [1, 1] [0] \<and>
   gn_x (gn_states lstsq_col [1] exn_f exn_df exn_r exn_J 1 (1/1000) (1/1000) (1/2) 10 ! 1) = [2/5] \<and>
   exw_J [1/2] = [[0]] \<and> exw_r [1/2] = [7/4] \<and>
   lstsq_solves [[0]] [- (7/4)] (lstsq_col [[0]] [- (7/4)]) \<and>
   gn_dir lstsq_col exw_r exw_J
     (gn_states lstsq_col [1/2] exw_f exw_df exw_r exw_J 1 (1/1000) (1/1000) (1/2) 1 ! 0) = [0] \<and>
   gn_residual [[0]] [7/4] [0] \<le> gn_residual [[0]] [7/4] [1]"
proof -
  let ?T = "gn_states lstsq_col [1] exn_f exn_df exn_r exn_J 1 (1/1000) (1/1000) (1/2) 10"
  let ?U = "gn_states lstsq_col [1/2] exw_f exw_df exw_r exw_J 1 (1/1000) (1/1000) (1/2) 1"
  have T0: "gn_x (?T ! 0) = [1]" and lenT: "Suc 0 < length ?T" and T1: "gn_x (?T ! Suc 0) = [2/5]"
    unfolding exn_states by (simp_all add: gn_init_def)
  have U0: "gn_x (?U ! 0) = [1/2]" and lenU: "Suc 0 < length ?U"
    unfolding exw_states_from_half by (simp_all add: gn_init_def)
  have Jn: "exn_J [1] = [[1], [2]]" and rn: "exn_r [1] = [1, 1]"
    and bn: "vneg (exn_r [1]) = [- 1, - 1]"
    and coln: "lstsq_col [[1], [2]] [- 1, - 1] = [- (3/5)]"
    by (simp_all add: vneg_def dot_def smul_def exn_defs)
  have Jw: "exw_J [1/2] = [[0]]" and rw: "exw_r [1/2] = [7/4]"
    and bw: "vneg (exw_r [1/2]) = [- (7/4)]"
    and colw: "lstsq_col [[0]] [- (7/4)] = [0]"
    by (simp_all add: vneg_def dot_def exw_defs)
  have solvedn: "lstsq_solves [[1], [2]] [- 1, - 1] (lstsq_col [[1], [2]] [- 1, - 1])"
    unfolding coln by (rule exn_solved)
  have solvedw: "lstsq_solves [[0]] [- (7/4)] (lstsq_col [[0]] [- (7/4)])"
    unfolding colw by (rule exw_solved_at_half)
  have hn: "lstsq_solves (exn_J (gn_x (?T ! 0))) (vneg (exn_r (gn_x (?T ! 0))))
      (lstsq_col (exn_J (gn_x (?T ! 0))) (vneg (exn_r (gn_x (?T ! 0)))))"
    unfolding T0 bn Jn by (rule solvedn)
  have hw: "lstsq_solves (exw_J (gn_x (?U ! 0))) (vneg (exw_r (gn_x (?U ! 0))))
      (lstsq_col (exw_J (gn_x (?U ! 0))) (vneg (exw_r (gn_x (?U ! 0)))))"
    unfolding U0 bw Jw by (rule solvedw)
  note dn = C8_direction_is_least_squares [OF lenT hn]
  note dw = C8_direction_is_least_squares [OF lenU hw]
  from dn [THEN conjunct1] have dirn: "gn_dir lstsq_col exn_r exn_J (?T ! 0) = [- (3/5)]"
    unfolding T0 bn Jn coln .
  from dw [THEN conjunct1] have dirw: "gn_dir lstsq_col exw_r exw_J (?U ! 0) = [0]"
    unfolding U0 bw Jw colw .
  from dn [THEN conjunct2, THEN conjunct1]
  have "gn_least_squares [[1], [2]] [1, 1] [- (3/5)]"
    unfolding dirn T0 Jn rn .
  then have bestn: "gn_residual [[1], [2]] [1, 1] [- (3/5)] \<le> gn_residual [[1], [2]] [1, 1] [0]"
    unfolding gn_least_squares_def by simp
  from dw [THEN conjunct2, THEN conjunct1]
  have "gn_least_squares [[0]] [7/4] [0]"
    unfolding dirw U0 Jw rw .
  then have bestw: "gn_residual [[0]] [7/4] [0] \<le> gn_residual [[0]] [7/4] [1]"
    unfolding gn_least_squares_def by simp
  have T1': "gn_x (?T ! 1) = [2/5]"
    using T1 by simp
  from Jn rn solvedn dirn bestn T1' Jw rw solvedw dirw bestw show ?thesis by simp
qed

text \<open>
  C9. The guard is seeded with \<open>ng = 2 err\<close>, not with the gradient norm at the initial
  point. So for \<open>err > 0\<close> and \<open>N \<ge> 1\<close> at least one pass of the body is executed,
  whatever the gradient at \<open>x0\<close> is; and for \<open>err \<le> 0\<close> none is, and the call returns
  \<open>x0\<close>, two empty histories and the count 0.
\<close>

theorem C9_guard_seeded_with_twice_err:
  "gn_ng (gn_states lstsq x f df r J N err c1 c2 lsi ! 0) = 2 * err \<and>
   (0 < err \<and> 1 \<le> N \<longrightarrow>
      1 \<le> snd (snd (snd (gauss_newton lstsq x f df r J N err c1 c2 lsi))) \<and>
      gn_states lstsq x f df r J N err c1 c2 lsi ! 1 =
        gn_body lstsq f df r J c1 c2 lsi (gn_init x err)) \<and>
   (err \<le> 0 \<longrightarrow> gauss_newton lstsq x f df r J N err c1 c2 lsi = (x, [], [], 0))"
proof -
  let ?T = "gn_states lstsq x f df r J N err c1 c2 lsi"
  have seed: "gn_ng (?T ! 0) = 2 * err"
    by (simp add: gn_states_nth0 gn_init_def)
  have run: "1 \<le> snd (snd (snd (gauss_newton lstsq x f df r J N err c1 c2 lsi))) \<and>
             ?T ! 1 = gn_body lstsq f df r J c1 c2 lsi (gn_init x err)"
    if "0 < err" and "1 \<le> N"
  proof -
    from that have "gn_guard N err (gn_init x err)"
      by (simp add: gn_guard_def gn_init_def)
    then have T: "?T = gn_init x err # gn_trace lstsq f df r J N err c1 c2 lsi
                    (gn_body lstsq f df r J c1 c2 lsi (gn_init x err))"
      unfolding gn_states_def by (subst gn_trace_unfold) simp
    then have one: "?T ! 1 = gn_body lstsq f df r J c1 c2 lsi (gn_init x err)"
      by (simp add: gn_trace_nth0)
    from T have "2 \<le> length ?T"
      using gn_trace_nonempty [of lstsq f df r J N err c1 c2 lsi
          "gn_body lstsq f df r J c1 c2 lsi (gn_init x err)"]
      by (cases "gn_trace lstsq f df r J N err c1 c2 lsi
          (gn_body lstsq f df r J c1 c2 lsi (gn_init x err))") simp_all
    moreover obtain x' F G k where res: "gauss_newton lstsq x f df r J N err c1 c2 lsi = (x', F, G, k)"
      by (cases "gauss_newton lstsq x f df r J N err c1 c2 lsi") auto
    from gauss_newton_count [OF res] have "length ?T = Suc k" by simp
    ultimately have "1 \<le> k" by simp
    with res one show ?thesis by simp
  qed
  have none: "gauss_newton lstsq x f df r J N err c1 c2 lsi = (x, [], [], 0)" if "err \<le> 0"
  proof -
    from that have "\<not> gn_guard N err (gn_init x err)"
      by (simp add: gn_guard_def gn_init_def)
    then have "gn_loop lstsq f df r J N err c1 c2 lsi (gn_init x err) = gn_init x err"
      by (subst gn_loop_unfold) simp
    then show ?thesis by (simp add: gauss_newton_def gn_init_def)
  qed
  from seed run none show ?thesis by blast
qed

theorem C9_guard_seeded_with_twice_err_witness:
  "(0::real) < 1/1000 \<and> (1::nat) \<le> 20 \<and> la_norm (exq_df [0]) \<le> 1/1000 \<and>
   1 \<le> snd (snd (snd (gauss_newton lstsq_col [0] exq_f exq_df exq_r exq_J 20 (1/1000) (1/1000) (1/2) 2))) \<and>
   gauss_newton lstsq_col [0] exq_f exq_df exq_r exq_J 20 (1/1000) (1/1000) (1/2) 2 = ([0], [0], [0], 1) \<and>
   (0::real) \<le> 0 \<and>
   gauss_newton lstsq_col [1] exq_f exq_df exq_r exq_J 20 0 (1/1000) (1/2) 2 = ([1], [], [], 0)"
proof -
  have h: "(0::real) < 1/1000 \<and> (1::nat) \<le> 20" by simp
  have z: "(0::real) \<le> 0" by simp
  have e: "la_norm (exq_df [0]) \<le> 1/1000"
    by (simp add: la_norm_single dot_def exq_defs)
  have call: "gauss_newton lstsq_col [0] exq_f exq_df exq_r exq_J 20 (1/1000) (1/1000) (1/2) 2 =
      ([0], [0], [0], 1)"
    by (simp add: gauss_newton_last exq_states_from_0)
  from C9_guard_seeded_with_twice_err
    [of lstsq_col "[0]" exq_f exq_df exq_r exq_J 20 "1/1000" "1/1000" "1/2" 2,
     THEN conjunct2, THEN conjunct1, rule_format, OF h]
  have a: "1 \<le> snd (snd (snd
      (gauss_newton lstsq_col [0] exq_f exq_df exq_r exq_J 20 (1/1000) (1/1000) (1/2) 2)))"
    by simp
  from C9_guard_seeded_with_twice_err
    [of lstsq_col "[1]" exq_f exq_df exq_r exq_J 20 0 "1/1000" "1/2" 2,
     THEN conjunct2, THEN conjunct2, rule_format, OF z]
  have b: "gauss_newton lstsq_col [1] exq_f exq_df exq_r exq_J 20 0 (1/1000) (1/2) 2 = ([1], [], [], 0)" .
  from h z e call a b show ?thesis by simp
qed

end
